theory Spec2Isabelle
  imports Main "HOL-Library.AList"
begin

section \<open>JavaScript values and objects\<close>

text \<open>
  The build options of \<^verbatim>\<open>src/build/buildMain.js\<close> and \<^verbatim>\<open>src/build/buildApp.js\<close>
  are plain JavaScript objects. A value is a tree: the primitives, a function (by an
  identifier), an array, or an object as the list of its own properties in insertion order.
  Numbers are the integers plus \<open>NaN\<close> and the two infinities, which is all that
  \<^verbatim>\<open>JSON.stringify\<close> distinguishes. The values are the plain data of a configuration:
  \<^verbatim>\<open>BigInt\<close> values, cyclic structures, prototype properties, getters and the call of a
  \<^verbatim>\<open>toJSON\<close> method are outside the model.
\<close>

datatype jsval =
    JUndefined
  | JNull
  | JBool bool
  | JNum int
  | JNaN
  | JInfinity bool
  | JStr string
  | JFun nat
  | JArr "jsval list"
  | JObj "(string \<times> jsval) list"

type_synonym obj = "(string \<times> jsval) list"

text \<open>\<^verbatim>\<open>o.k\<close>: the value of an own property, \<^verbatim>\<open>undefined\<close> when the object has none.\<close>

definition get_prop :: "obj \<Rightarrow> string \<Rightarrow> jsval" where
  "get_prop ob k = (case map_of ob k of None \<Rightarrow> JUndefined | Some v \<Rightarrow> v)"

text \<open>The conversion to boolean of \<^verbatim>\<open>if (x)\<close> and \<^verbatim>\<open>!x\<close>.\<close>

fun truthy :: "jsval \<Rightarrow> bool" where
  "truthy JUndefined = False"
| "truthy JNull = False"
| "truthy (JBool b) = b"
| "truthy (JNum n) = (n \<noteq> 0)"
| "truthy JNaN = False"
| "truthy (JInfinity s) = True"
| "truthy (JStr s) = (s \<noteq> [])"
| "truthy (JFun f) = True"
| "truthy (JArr vs) = True"
| "truthy (JObj kvs) = True"

subsection \<open>\<^verbatim>\<open>JSON.parse(JSON.stringify(v))\<close>\<close>

text \<open>
  \<^verbatim>\<open>JSON.stringify\<close> has no text for \<^verbatim>\<open>undefined\<close> and for functions: a property holding one
  is left out of its object, an array element holding one is written \<^verbatim>\<open>null\<close>. \<open>NaN\<close> and
  the infinities are written \<^verbatim>\<open>null\<close>. Parsing the text back gives a fresh tree.
\<close>

fun unwritten :: "jsval \<Rightarrow> bool" where
  "unwritten JUndefined = True"
| "unwritten (JFun f) = True"
| "unwritten v = False"

fun json_copy :: "jsval \<Rightarrow> jsval"
  and json_copy_elems :: "jsval list \<Rightarrow> jsval list"
  and json_copy_props :: "(string \<times> jsval) list \<Rightarrow> (string \<times> jsval) list" where
  "json_copy JUndefined = JNull"
| "json_copy JNull = JNull"
| "json_copy (JBool b) = JBool b"
| "json_copy (JNum n) = JNum n"
| "json_copy JNaN = JNull"
| "json_copy (JInfinity s) = JNull"
| "json_copy (JStr s) = JStr s"
| "json_copy (JFun f) = JNull"
| "json_copy (JArr vs) = JArr (json_copy_elems vs)"
| "json_copy (JObj kvs) = JObj (json_copy_props kvs)"
| "json_copy_elems [] = []"
| "json_copy_elems (v # vs) = json_copy v # json_copy_elems vs"
| "json_copy_props [] = []"
| "json_copy_props ((k, v) # kvs) =
     (if unwritten v then json_copy_props kvs else (k, json_copy v) # json_copy_props kvs)"

text \<open>A value is JSON-serializable when the round trip has nothing to drop or replace.\<close>

fun serializable :: "jsval \<Rightarrow> bool"
  and serializable_elems :: "jsval list \<Rightarrow> bool"
  and serializable_props :: "(string \<times> jsval) list \<Rightarrow> bool" where
  "serializable JUndefined = False"
| "serializable JNull = True"
| "serializable (JBool b) = True"
| "serializable (JNum n) = True"
| "serializable JNaN = False"
| "serializable (JInfinity s) = False"
| "serializable (JStr s) = True"
| "serializable (JFun f) = False"
| "serializable (JArr vs) = serializable_elems vs"
| "serializable (JObj kvs) = serializable_props kvs"
| "serializable_elems [] = True"
| "serializable_elems (v # vs) = (serializable v \<and> serializable_elems vs)"
| "serializable_props [] = True"
| "serializable_props ((k, v) # kvs) = (serializable v \<and> serializable_props kvs)"

section \<open>The store, the log and the host\<close>

text \<open>
  Objects have identity: a variable holds the address of an object in the store, and an
  assignment \<^verbatim>\<open>o[k] = v\<close> changes the object at that address for everyone who holds it.
  A new object takes the next free address. The values of its properties are kept as trees
  in its cell: the two files assign only to properties of a configuration object itself,
  never into a nested object, so sharing below the top level cannot be observed.
  Every observable effect of a run (progress
  ticks, log lines, calls of the collaborators) is appended to one trace. \<open>Enter f\<close> is the
  one event without an effect in the source: it marks that the function \<open>f\<close> was called.
\<close>

type_synonym addr = nat

datatype error = Error string | TypeError string | ErrorText string

text \<open>
  A call either comes back (a function returns, a callback is called, a promise settles) or
  an exception escapes it; an exception that escapes a stage of the pipeline ends the run
  and the final callback is never called.
\<close>

datatype 'a outcome = Done 'a | Uncaught error

fun error_text :: "error \<Rightarrow> string" where
  "error_text (Error m) = ''Error: '' @ m"
| "error_text (TypeError m) = ''TypeError: '' @ m"
| "error_text (ErrorText m) = m"

datatype event =
    Tick string
  | Warn string
  | WarnError error
  | WarnPaths string "string list"
  | ConsoleLog string jsval
  | Override
  | Restore
  | Playback
  | InferCall obj
  | IconBuildCall obj
  | PackagerCall obj
  | CopyCall string string
  | WriteJson string obj
  | Enter string

record world =
  heap :: "obj list"
  trace :: "event list"

definition is_object :: "world \<Rightarrow> addr \<Rightarrow> bool" where
  "is_object w a = (a < length (heap w))"

definition obj_at :: "world \<Rightarrow> addr \<Rightarrow> obj" where
  "obj_at w a = heap w ! a"

definition alloc :: "obj \<Rightarrow> world \<Rightarrow> addr \<times> world" where
  "alloc ob w = (length (heap w), w\<lparr>heap := heap w @ [ob]\<rparr>)"

definition assign :: "addr \<Rightarrow> string \<Rightarrow> jsval \<Rightarrow> world \<Rightarrow> world" where
  "assign a k v w = w\<lparr>heap := (heap w)[a := AList.update k v (heap w ! a)]\<rparr>"

definition emit :: "event \<Rightarrow> world \<Rightarrow> world" where
  "emit e w = w\<lparr>trace := trace w @ [e]\<rparr>"

text \<open>
  The collaborators that are not code of the two files: the host probes
  (\<^verbatim>\<open>helpers.isWindows\<close>, \<^verbatim>\<open>hasbin.sync\<close>), the options inference, the icon build, the
  packaging engine (\<^verbatim>\<open>electron-packager\<close>), the recursive copy (\<^verbatim>\<open>ncp\<close>), the file system
  and \<^verbatim>\<open>path\<close>, the digest and \<^verbatim>\<open>lodash\<close>. Each is a parameter; its answers are fixed
  during one run.
\<close>

record env =
  isWindows :: bool
  hasBinary :: "string \<Rightarrow> bool"
  tmpPath :: string
  optionsFactory :: "obj \<Rightarrow> error + obj"
  iconBuild :: "obj \<Rightarrow> error option \<times> obj"
  packager :: "obj \<Rightarrow> error + string list"
  ncp :: "string \<Rightarrow> string \<Rightarrow> error option"
  existsSync :: "string \<Rightarrow> bool"
  writeFileSync :: "string \<Rightarrow> obj \<Rightarrow> error option"
  readJsonSync :: "string \<Rightarrow> error + obj"
  path_join :: "string list \<Rightarrow> string"
  path_extname :: "string \<Rightarrow> string"
  md5_hex :: "string \<Rightarrow> string"
  kebabCase :: "string \<Rightarrow> string"
  toLowerCase :: "string \<Rightarrow> string"

section \<open>The Platform Capability Guard (\<^verbatim>\<open>buildMain.js\<close>)\<close>

definition wine_icon_warning :: string where
  "wine_icon_warning =
     ''Wine is required to set the icon for a Windows app when packaging on non-windows platforms''"

definition wine_option_warning :: "string \<Rightarrow> string" where
  "wine_option_warning param =
     ''Wine is required to use '' @ [CHR 0x22] @ param @ [CHR 0x22] @
     '' option for a Windows app when packaging on non-windows platforms''"

text \<open>
  \<^verbatim>\<open>maybeNoIconOption(options)\<close>, lines 45 to 56. The copy is a new object; the platform is
  read from \<^verbatim>\<open>options\<close> after the copy was made; the assignment goes to the copy. An address
  that holds no object stands for a value that is not an object, where the function throws.
\<close>

definition maybeNoIconOption :: "env \<Rightarrow> addr \<Rightarrow> world \<Rightarrow> (error + addr) \<times> world" where
  "maybeNoIconOption en options w =
     (if \<not> is_object w options then (Inl (TypeError ''options is not an object''), w)
      else
        let (packageOptions, w1) = alloc (json_copy_props (obj_at w options)) w in
        if get_prop (obj_at w1 options) ''platform'' = JStr ''win32'' \<and> \<not> isWindows en then
          if \<not> hasBinary en ''wine'' then
            let w2 = emit (Warn wine_icon_warning) w1;
                w3 = assign packageOptions ''icon'' JNull w2
            in (Inr packageOptions, w3)
          else (Inr packageOptions, w1)
        else (Inr packageOptions, w1))"

text \<open>\<^verbatim>\<open>removeInvalidOptions(options, param)\<close>, lines 90 to 101.\<close>

definition removeInvalidOptions ::
  "env \<Rightarrow> addr \<Rightarrow> string \<Rightarrow> world \<Rightarrow> (error + addr) \<times> world" where
  "removeInvalidOptions en options param w =
     (if \<not> is_object w options then (Inl (TypeError ''options is not an object''), w)
      else
        let (packageOptions, w1) = alloc (json_copy_props (obj_at w options)) w in
        if get_prop (obj_at w1 options) ''platform'' = JStr ''win32'' \<and> \<not> isWindows en then
          if \<not> hasBinary en ''wine'' then
            let w2 = emit (Warn (wine_option_warning param)) w1;
                w3 = assign packageOptions param JNull w2
            in (Inr packageOptions, w3)
          else (Inr packageOptions, w1)
        else (Inr packageOptions, w1))"

definition maybeNoAppCopyrightOption :: "env \<Rightarrow> addr \<Rightarrow> world \<Rightarrow> (error + addr) \<times> world" where
  "maybeNoAppCopyrightOption en options = removeInvalidOptions en options ''appCopyright''"

definition maybeNoBuildVersionOption :: "env \<Rightarrow> addr \<Rightarrow> world \<Rightarrow> (error + addr) \<times> world" where
  "maybeNoBuildVersionOption en options = removeInvalidOptions en options ''buildVersion''"

definition maybeNoAppVersionOption :: "env \<Rightarrow> addr \<Rightarrow> world \<Rightarrow> (error + addr) \<times> world" where
  "maybeNoAppVersionOption en options = removeInvalidOptions en options ''appVersion''"

definition maybeNoVersionStringOption :: "env \<Rightarrow> addr \<Rightarrow> world \<Rightarrow> (error + addr) \<times> world" where
  "maybeNoVersionStringOption en options = removeInvalidOptions en options ''versionString''"

definition maybeNoWin32metadataOption :: "env \<Rightarrow> addr \<Rightarrow> world \<Rightarrow> (error + addr) \<times> world" where
  "maybeNoWin32metadataOption en options = removeInvalidOptions en options ''win32metadata''"


section \<open>The App Arg Selector and the Staging Copier (\<^verbatim>\<open>buildApp.js\<close>)\<close>

text \<open>The keys of the object literal of \<^verbatim>\<open>selectAppArgs\<close>, lines 15 to 60, in its order.\<close>

definition allow_list :: "string list" where
  "allow_list =
     [''name'', ''targetUrl'', ''counter'', ''bounce'', ''width'', ''height'',
      ''minWidth'', ''minHeight'', ''maxWidth'', ''maxHeight'', ''x'', ''y'',
      ''showMenuBar'', ''fastQuit'', ''userAgent'', ''nativefierVersion'',
      ''ignoreCertificate'', ''disableGpu'', ''ignoreGpuBlacklist'', ''enableEs3Apis'',
      ''insecure'', ''flashPluginDir'', ''diskCacheSize'', ''fullScreen'',
      ''hideWindowFrame'', ''maximize'', ''disableContextMenu'', ''disableDevTools'',
      ''zoom'', ''internalUrls'', ''crashReporter'', ''singleInstance'', ''clearCache'',
      ''appCopyright'', ''appVersion'', ''buildVersion'', ''win32metadata'',
      ''versionString'', ''processEnvs'', ''fileDownloadOptions'', ''tray'',
      ''basicAuthUsername'', ''basicAuthPassword'', ''alwaysOnTop'', ''titleBarStyle'',
      ''globalShortcuts'']"

text \<open>
  \<^verbatim>\<open>selectAppArgs(options)\<close>. Reading a property of \<^verbatim>\<open>undefined\<close> or \<^verbatim>\<open>null\<close> throws; a
  primitive, an array or a function has none of the listed properties of its own (the
  built-in \<^verbatim>\<open>name\<close> of a function is not modelled).
\<close>

fun selectAppArgs :: "jsval \<Rightarrow> error + obj" where
  "selectAppArgs JUndefined = Inl (TypeError ''Cannot read property name of undefined'')"
| "selectAppArgs JNull = Inl (TypeError ''Cannot read property name of null'')"
| "selectAppArgs (JObj options) = Inr (map (\<lambda>k. (k, get_prop options k)) allow_list)"
| "selectAppArgs v = Inr (map (\<lambda>k. (k, JUndefined)) allow_list)"

definition file_not_found :: error where
  "file_not_found = Error ''Error copying injection files: file not found''"

text \<open>
  One promise of \<^verbatim>\<open>maybeCopyScripts\<close>, lines 72 to 95: \<open>None\<close> when it resolves, the reason
  when it rejects. \<^verbatim>\<open>fs.existsSync\<close> answers false for what is not a string.
\<close>

definition copy_script :: "env \<Rightarrow> string \<Rightarrow> jsval \<Rightarrow> world \<Rightarrow> error option \<times> world" where
  "copy_script en dest src w =
     (case src of
        JStr s \<Rightarrow>
          if \<not> existsSync en s then (Some file_not_found, w)
          else
            (case (if path_extname en s = ''.js'' then Some ''inject.js''
                   else if path_extname en s = ''.css'' then Some ''inject.css''
                   else None) of
               None \<Rightarrow> (None, w)
             | Some destFileName \<Rightarrow>
                 let target = path_join en [dest, ''inject'', destFileName];
                     w1 = emit (CopyCall s target) w
                 in (case ncp en s target of
                       Some error \<Rightarrow>
                         (Some (Error (''Error Copying injection files: '' @ error_text error)),
                          w1)
                     | None \<Rightarrow> (None, w1)))
      | _ \<Rightarrow> (Some file_not_found, w))"

text \<open>All promises are started, in the order of the array; each keeps its own result.\<close>

fun copy_scripts :: "env \<Rightarrow> string \<Rightarrow> jsval list \<Rightarrow> world \<Rightarrow> error option list \<times> world" where
  "copy_scripts en dest [] w = ([], w)"
| "copy_scripts en dest (src # srcs) w =
     (let (r, w1) = copy_script en dest src w;
          (rs, w2) = copy_scripts en dest srcs w1
      in (r # rs, w2))"

text \<open>
  \<^verbatim>\<open>Promise.all\<close> rejects with the reason of the promise that rejects first. A missing file
  rejects at once, while the array is mapped; a failed copy rejects later, from the callback
  of the copy. Copies are taken to finish in the order they were started.
\<close>

definition promise_all :: "error option list \<Rightarrow> error option" where
  "promise_all rs =
     (if Some file_not_found \<in> set rs then Some file_not_found
      else case filter (\<lambda>r. r \<noteq> None) rs of [] \<Rightarrow> None | r # _ \<Rightarrow> r)"

text \<open>
  \<^verbatim>\<open>maybeCopyScripts(srcs, dest)\<close>, lines 64 to 107: \<open>Done None\<close> is the resolved promise,
  \<open>Done (Some e)\<close> the rejected one. A truthy value that is not an array has no \<^verbatim>\<open>map\<close>.
\<close>

definition maybeCopyScripts ::
  "env \<Rightarrow> jsval \<Rightarrow> string \<Rightarrow> world \<Rightarrow> error option outcome \<times> world" where
  "maybeCopyScripts en srcs dest w =
     (if \<not> truthy srcs then (Done None, w)
      else case srcs of
        JArr xs \<Rightarrow> (let (rs, w1) = copy_scripts en dest xs w in (Done (promise_all rs), w1))
      | _ \<Rightarrow> (Uncaught (TypeError ''srcs.map is not a function''), w))"


text \<open>
  \<^verbatim>\<open>changeAppPackageJsonName(appPath, name)\<close>, lines 118 to 124. The file is read and parsed
  in one step; what is written is the document that \<^verbatim>\<open>JSON.stringify\<close> produces.
\<close>

definition changeAppPackageJsonName ::
  "env \<Rightarrow> string \<Rightarrow> jsval \<Rightarrow> world \<Rightarrow> unit outcome \<times> world" where
  "changeAppPackageJsonName en appPath name w =
     (let packageJsonPath = path_join en [appPath, ''/package.json''] in
      case readJsonSync en packageJsonPath of
        Inl e \<Rightarrow> (Uncaught e, w)
      | Inr packageJson \<Rightarrow>
          let packageJson' = AList.update ''name'' name packageJson;
              w1 = emit (ConsoleLog ''PACKAGE NAME: '' name) w;
              doc = json_copy_props packageJson';
              w2 = emit (WriteJson packageJsonPath doc) w1
          in (case writeFileSync en packageJsonPath doc of
                Some e \<Rightarrow> (Uncaught e, w2)
              | None \<Rightarrow> (Done (), w2)))"

text \<open>
  \<^verbatim>\<open>buildApp(src, dest, options, callback)\<close>, lines 135 to 157: \<open>Done r\<close> is the call
  \<^verbatim>\<open>callback(r)\<close>. The rejection of \<^verbatim>\<open>maybeCopyScripts\<close> goes to \<^verbatim>\<open>log.warn\<close> and the chain
  goes on. An exception in the callback of the copy, or in the \<^verbatim>\<open>then\<close> handler, escapes.
\<close>

definition buildApp ::
  "env \<Rightarrow> jsval \<Rightarrow> string \<Rightarrow> obj \<Rightarrow> world \<Rightarrow> error option outcome \<times> world" where
  "buildApp en src dest options w =
     (case selectAppArgs (JObj options) of
        Inl e \<Rightarrow> (Uncaught e, w)
      | Inr appArgs \<Rightarrow>
         (case src of
            JStr s \<Rightarrow>
              let w1 = emit (CopyCall s dest) w in
              (case ncp en s dest of
                 Some error \<Rightarrow>
                   (Done (Some (ErrorText
                      (''Error Copying temporary directory: '' @ error_text error))), w1)
               | None \<Rightarrow>
                   let target = path_join en [dest, ''/nativefier.json''];
                       doc = json_copy_props appArgs;
                       w2 = emit (WriteJson target doc) w1
                   in (case writeFileSync en target doc of
                         Some e \<Rightarrow> (Uncaught e, w2)
                       | None \<Rightarrow>
                          (case maybeCopyScripts en (get_prop options ''inject'') dest w2 of
                             (Uncaught e, w3) \<Rightarrow> (Uncaught e, w3)
                           | (Done r, w3) \<Rightarrow>
                               let w4 = (case r of
                                           Some err \<Rightarrow> emit (WarnError err) w3
                                         | None \<Rightarrow> w3)
                               in (case changeAppPackageJsonName en dest
                                          (get_prop appArgs ''name'') w4 of
                                     (Uncaught e, w5) \<Rightarrow> (Uncaught e, w5)
                                   | (Done u, w5) \<Rightarrow> (Done None, w5)))))
          | _ \<Rightarrow> (Uncaught (TypeError ''The path argument must be of type string''), w)))"


section \<open>The Icon Finalizer and the Packaging Orchestrator (\<^verbatim>\<open>buildMain.js\<close>)\<close>

text \<open>\<^verbatim>\<open>getAppPath(appPathArray)\<close>, lines 23 to 38.\<close>

definition getAppPath :: "string list \<Rightarrow> world \<Rightarrow> jsval \<times> world" where
  "getAppPath appPathArray w =
     (if length appPathArray = 0 then (JNull, w)
      else
        let w1 = (if length appPathArray > 1
                  then emit (WarnPaths
                    ''Warning: This should not be happening, packaged app path contains more than one element:''
                    appPathArray) w
                  else w)
        in (JStr (appPathArray ! 0), w1))"

text \<open>
  \<^verbatim>\<open>maybeCopyIcons(options, appPath, callback)\<close>, lines 65 to 83: \<open>Done r\<close> is the call
  \<^verbatim>\<open>callback(r)\<close>. \<^verbatim>\<open>path.extname\<close> throws for an icon that is not a string.
\<close>

definition maybeCopyIcons ::
  "env \<Rightarrow> obj \<Rightarrow> string \<Rightarrow> world \<Rightarrow> error option outcome \<times> world" where
  "maybeCopyIcons en options appPath w0 =
     (let w = emit (Enter ''maybeCopyIcons'') w0 in
      if \<not> truthy (get_prop options ''icon'') then (Done None, w)
      else if get_prop options ''platform'' = JStr ''darwin'' \<or>
              get_prop options ''platform'' = JStr ''mas'' then (Done None, w)
      else
        (case get_prop options ''icon'' of
           JStr icon \<Rightarrow>
             let destIconPath = path_join en [appPath, ''resources/app''];
                 destFileName = ''icon'' @ path_extname en icon;
                 target = path_join en [destIconPath, destFileName];
                 w1 = emit (CopyCall icon target) w
             in (Done (ncp en icon target), w1)
         | _ \<Rightarrow> (Uncaught (TypeError ''The path argument must be of type string''), w)))"

text \<open>
  The six guards of the packaging stage, lines 209 to 215, each applied to the result of
  the one before.
\<close>

definition and_then ::
  "(error + addr) \<times> world \<Rightarrow> (addr \<Rightarrow> world \<Rightarrow> (error + addr) \<times> world) \<Rightarrow>
   (error + addr) \<times> world" where
  "and_then r f = (case r of (Inl e, w) \<Rightarrow> (Inl e, w) | (Inr a, w) \<Rightarrow> f a w)"

definition sanitize :: "env \<Rightarrow> addr \<Rightarrow> world \<Rightarrow> (error + addr) \<times> world" where
  "sanitize en opts w =
     and_then (and_then (and_then (and_then (and_then
       (maybeNoIconOption en opts w)
       (maybeNoAppCopyrightOption en))
       (maybeNoAppVersionOption en))
       (maybeNoBuildVersionOption en))
       (maybeNoVersionStringOption en))
       (maybeNoWin32metadataOption en)"

subsection \<open>\<^verbatim>\<open>async.waterfall\<close>\<close>

text \<open>
  A task is called with the results of the task before it and calls \<^verbatim>\<open>cb(err, ...results)\<close>.
  With an error the waterfall stops and hands the error and the results of that very call
  to the final callback; after the last task the final callback gets its results.
\<close>

datatype arg = AOpts addr | APaths "string list" | APath string

type_synonym cbcall = "error option \<times> arg list"

type_synonym task = "arg list \<Rightarrow> world \<Rightarrow> cbcall outcome \<times> world"

fun waterfall :: "task list \<Rightarrow> arg list \<Rightarrow> world \<Rightarrow> cbcall outcome \<times> world" where
  "waterfall [] args w = (Done (None, args), w)"
| "waterfall (t # ts) args w =
     (case t args w of
        (Uncaught e, w1) \<Rightarrow> (Uncaught e, w1)
      | (Done (Some e, res), w1) \<Rightarrow> (Done (Some e, res), w1)
      | (Done (None, res), w1) \<Rightarrow> waterfall ts res w1)"

text \<open>
  A task whose arguments are not the ones its parameters expect (an options value that is
  not an object, a missing argument) throws where it first uses them.
\<close>

definition bad_args :: "world \<Rightarrow> cbcall outcome \<times> world" where
  "bad_args w = (Uncaught (TypeError ''argument is not what the stage expects''), w)"

subsection \<open>The five stages of \<^verbatim>\<open>buildMain\<close>, lines 173 to 241\<close>

definition stage_inferring :: "env \<Rightarrow> addr \<Rightarrow> task" where
  "stage_inferring en options args w0 =
     (let w1 = emit (Tick ''inferring'') w0 in
      if args \<noteq> [] \<or> \<not> is_object w1 options then bad_args w1
      else
        let w2 = emit (ConsoleLog ''PACKAGE NAME 1: '' (get_prop (obj_at w1 options) ''name'')) w1;
            w3 = emit (InferCall (obj_at w2 options)) w2
        in (case optionsFactory en (obj_at w2 options) of
              Inr res \<Rightarrow>
                let (result, w4) = alloc res w3;
                    w5 = emit (ConsoleLog ''PACKAGE NAME 1.5: ''
                           (get_prop (obj_at w4 result) ''name'')) w4
                in (Done (None, [AOpts result]), w5)
            | Inl error \<Rightarrow> (Done (Some error, []), w3)))"

definition stage_copying :: "env \<Rightarrow> task" where
  "stage_copying en args w0 =
     (let w1 = emit (Tick ''copying'') w0 in
      case args of
        [AOpts opts] \<Rightarrow>
          if \<not> is_object w1 opts then bad_args w1
          else
            let w2 = emit (ConsoleLog ''PACKAGE NAME 2:'' (get_prop (obj_at w1 opts) ''name'')) w1
            in (case buildApp en (get_prop (obj_at w2 opts) ''dir'') (tmpPath en)
                       (obj_at w2 opts) w2 of
                  (Uncaught e, w3) \<Rightarrow> (Uncaught e, w3)
                | (Done (Some error), w3) \<Rightarrow> (Done (Some error, []), w3)
                | (Done None, w3) \<Rightarrow>
                    let (newOptions, w4) =
                          alloc (AList.update ''dir'' (JStr (tmpPath en)) (obj_at w3 opts)) w3
                    in (Done (None, [AOpts newOptions]), w4))
      | _ \<Rightarrow> bad_args w1)"

definition stage_icons :: "env \<Rightarrow> task" where
  "stage_icons en args w0 =
     (let w1 = emit (Tick ''icons'') w0 in
      case args of
        [AOpts opts] \<Rightarrow>
          if \<not> is_object w1 opts then bad_args w1
          else
            let w2 = emit (IconBuildCall (obj_at w1 opts)) w1
            in (case iconBuild en (obj_at w1 opts) of
                  (error, res) \<Rightarrow>
                    let (optionsWithIcon, w3) = alloc res w2
                    in (Done (None, [AOpts optionsWithIcon]), w3))
      | _ \<Rightarrow> bad_args w1)"

definition stage_packaging :: "env \<Rightarrow> task" where
  "stage_packaging en args w0 =
     (let w1 = emit (Tick ''packaging'') w0 in
      case args of
        [AOpts opts] \<Rightarrow>
          (case sanitize en opts w1 of
             (Inl e, w2) \<Rightarrow> (Uncaught e, w2)
           | (Inr packageOptions, w2) \<Rightarrow>
               let w3 = emit Override w2;
                   w4 = emit (PackagerCall (obj_at w3 packageOptions)) w3
               in (case packager en (obj_at w3 packageOptions) of
                     Inr appPathArray \<Rightarrow>
                       let w5 = emit Restore w4
                       in (Done (None, [AOpts opts, APaths appPathArray]), w5)
                   | Inl error \<Rightarrow>
                       let w5 = emit Restore w4
                       in (Done (Some error, [AOpts opts]), w5)))
      | _ \<Rightarrow> bad_args w1)"

definition stage_finalizing :: "env \<Rightarrow> task" where
  "stage_finalizing en args w0 =
     (let w1 = emit (Tick ''finalizing'') w0 in
      case args of
        [AOpts opts, APaths appPathArray] \<Rightarrow>
          (case getAppPath appPathArray w1 of
             (appPath, w2) \<Rightarrow>
               if \<not> truthy appPath then (Done (None, []), w2)
               else
                 (case appPath of
                    JStr p \<Rightarrow>
                      if \<not> is_object w2 opts then bad_args w2
                      else
                        (case maybeCopyIcons en (obj_at w2 opts) p w2 of
                           (Uncaught e, w3) \<Rightarrow> (Uncaught e, w3)
                         | (Done error, w3) \<Rightarrow> (Done (error, [APath p]), w3))
                  | _ \<Rightarrow> bad_args w2))
      | _ \<Rightarrow> bad_args w1)"

definition stages :: "env \<Rightarrow> addr \<Rightarrow> task list" where
  "stages en options =
     [stage_inferring en options, stage_copying en, stage_icons en,
      stage_packaging en, stage_finalizing en]"

text \<open>
  The final callback of the waterfall, lines 243 to 246, names two parameters, so it sees the
  error and the first result: \<open>Done (error, appPath)\<close> is the call
  \<^verbatim>\<open>callback(error, appPath)\<close>, where \<open>None\<close> stands for an argument that is \<^verbatim>\<open>undefined\<close>
  or \<^verbatim>\<open>null\<close>.
\<close>

definition final_callback ::
  "cbcall outcome \<times> world \<Rightarrow> (error option \<times> arg option) outcome \<times> world" where
  "final_callback r =
     (case r of
        (Uncaught e, w1) \<Rightarrow> (Uncaught e, w1)
      | (Done (error, res), w1) \<Rightarrow>
          let w2 = emit Playback w1
          in (Done (error, case res of [] \<Rightarrow> None | appPath # _ \<Rightarrow> Some appPath), w2))"

text \<open>
  \<^verbatim>\<open>buildMain(inpOptions, callback)\<close>, lines 159 to 248. \<^verbatim>\<open>Object.assign({}, inpOptions)\<close> is
  a new object with the properties of \<^verbatim>\<open>inpOptions\<close>, none when that is no object.
\<close>

definition buildMain ::
  "env \<Rightarrow> addr \<Rightarrow> world \<Rightarrow> (error option \<times> arg option) outcome \<times> world" where
  "buildMain en inpOptions w =
     (let (options, w0) = alloc (if is_object w inpOptions then obj_at w inpOptions else []) w
      in final_callback (waterfall (stages en options) [] w0))"


section \<open>Notions used in the statements\<close>

text \<open>The condition under which a guard removes its option: lines 47 to 48 and 92 to 93.\<close>

definition guard_fires :: "env \<Rightarrow> obj \<Rightarrow> bool" where
  "guard_fires en ob =
     (get_prop ob ''platform'' = JStr ''win32'' \<and> \<not> isWindows en \<and> \<not> hasBinary en ''wine'')"

text \<open>The six guards, in the order in which the packaging stage applies them.\<close>

definition guards :: "env \<Rightarrow> (addr \<Rightarrow> world \<Rightarrow> (error + addr) \<times> world) list" where
  "guards en =
     [maybeNoIconOption en, maybeNoAppCopyrightOption en, maybeNoAppVersionOption en,
      maybeNoBuildVersionOption en, maybeNoVersionStringOption en,
      maybeNoWin32metadataOption en]"

text \<open>What a run adds to the trace.\<close>

definition new_events :: "world \<Rightarrow> world \<Rightarrow> event list" where
  "new_events w w' = drop (length (trace w)) (trace w')"

text \<open>The messages of \<^verbatim>\<open>log.warn\<close> calls with a plain message, in order.\<close>

fun warnings_of :: "event list \<Rightarrow> string list" where
  "warnings_of [] = []"
| "warnings_of (Warn m # es) = m # warnings_of es"
| "warnings_of (e # es) = warnings_of es"

text \<open>The JSON copy of a configuration with the six Windows-only options set to \<^verbatim>\<open>null\<close>.\<close>

definition sanitized :: "obj \<Rightarrow> obj" where
  "sanitized ob =
     AList.update ''win32metadata'' JNull (AList.update ''versionString'' JNull
       (AList.update ''buildVersion'' JNull (AList.update ''appVersion'' JNull
         (AList.update ''appCopyright'' JNull (AList.update ''icon'' JNull
           (json_copy_props ob))))))"






definition lower_alnum :: "char \<Rightarrow> bool" where
  "lower_alnum c = (c \<in> set ''abcdefghijklmnopqrstuvwxyz0123456789'')"


definition ascii_lower :: "char \<Rightarrow> char" where
  "ascii_lower c =
     (case map_of (zip ''ABCDEFGHIJKLMNOPQRSTUVWXYZ'' ''abcdefghijklmnopqrstuvwxyz'') c of
        None \<Rightarrow> c
      | Some l \<Rightarrow> l)"

fun hyphenate :: "string list \<Rightarrow> string" where
  "hyphenate [] = []"
| "hyphenate [w] = w"
| "hyphenate (w # v # ws) = w @ CHR ''-'' # hyphenate (v # ws)"




text \<open>
  The events of a stage's own work that are neither a tick, nor a call of the packaging
  engine, nor one of the console capture, nor an entry mark; and a step of the run that
  adds only such events and leaves the store alone.
\<close>

fun quiet :: "event \<Rightarrow> bool" where
  "quiet (Tick l) = False"
| "quiet Override = False"
| "quiet Restore = False"
| "quiet Playback = False"
| "quiet (PackagerCall c) = False"
| "quiet (Enter f) = False"
| "quiet e = True"

definition quietly :: "world \<Rightarrow> world \<Rightarrow> bool" where
  "quietly w w' = (heap w' = heap w \<and> (\<exists>evs. trace w' = trace w @ evs \<and> list_all quiet evs))"

text \<open>A step of the run that only adds objects to the store and plain warnings to the trace.\<close>

definition warned :: "world \<Rightarrow> world \<Rightarrow> bool" where
  "warned w w' = (\<exists>hs ws. heap w' = heap w @ hs \<and> trace w' = trace w @ map Warn ws)"

text \<open>
  The number of tasks that a waterfall calls: a task is called when every task before it
  has called back without an error. For \<^verbatim>\<open>buildMain\<close> this is the number of stages started.
\<close>

fun started :: "task list \<Rightarrow> arg list \<Rightarrow> world \<Rightarrow> nat" where
  "started [] args w = 0"
| "started (t # ts) args w =
     (case t args w of
        (Done (None, res), w1) \<Rightarrow> Suc (started ts res w1)
      | _ \<Rightarrow> 1)"

definition stages_started :: "env \<Rightarrow> addr \<Rightarrow> world \<Rightarrow> nat" where
  "stages_started en inpOptions w =
     (let (options, w0) = alloc (if is_object w inpOptions then obj_at w inpOptions else []) w
      in started (stages en options) [] w0)"

text \<open>The labels of the five ticks, and the ticks of a trace.\<close>

definition stage_labels :: "string list" where
  "stage_labels = [''inferring'', ''copying'', ''icons'', ''packaging'', ''finalizing'']"

fun ticks_of :: "event list \<Rightarrow> string list" where
  "ticks_of [] = []"
| "ticks_of (Tick l # es) = l # ticks_of es"
| "ticks_of (e # es) = ticks_of es"

text \<open>A task whose first effect is the tick \<open>l\<close> and that ticks no more.\<close>

definition tick_first :: "string \<Rightarrow> task \<Rightarrow> bool" where
  "tick_first l t =
     (\<forall>args w. \<exists>evs. trace (snd (t args w)) = trace w @ Tick l # evs
                    \<and> (\<forall>l'. Tick l' \<notin> set evs))"

text \<open>Ticks and quiet events: what the stages before the call of the engine add.\<close>

fun calm :: "event \<Rightarrow> bool" where
  "calm (Tick l) = True"
| "calm e = quiet e"

section \<open>Example host and configurations\<close>

definition simple_extname :: "string \<Rightarrow> string" where
  "simple_extname p =
     (let r = takeWhile (\<lambda>c. c \<noteq> CHR ''.'') (rev p)
      in if length r = length p then [] else CHR ''.'' # rev r)"

definition simple_join :: "string list \<Rightarrow> string" where
  "simple_join ps =
     foldr (\<lambda>p acc. if acc = [] then p
                     else if hd acc = CHR ''/'' then p @ acc
                     else p @ ''/'' @ acc) ps []"

text \<open>
  The words of a string when every maximal run of lower-case letters and digits is one
  word: \<open>acc\<close> is the word begun.
\<close>

fun word_runs :: "string \<Rightarrow> string \<Rightarrow> string list" where
  "word_runs acc [] = (if acc = [] then [] else [acc])"
| "word_runs acc (c # cs) =
     (if lower_alnum c then word_runs (acc @ [c]) cs
      else if acc = [] then word_runs [] cs
      else acc # word_runs [] cs)"

text \<open>
  A Linux host without Wine on which every collaborator succeeds. Its library functions
  are stand-ins that agree with the real ones on the examples: the digest is the MD5 of
  \<^verbatim>\<open>https://example.com\<close>, and the kebab case joins the runs of lower-case letters and
  digits with hyphens, which is what \<^verbatim>\<open>_.kebabCase\<close> gives for a name of lower-case
  letters, digits, spaces, underscores and hyphens in which no letter stands next to a
  digit.
\<close>

definition linux_host :: env where
  "linux_host =
     \<lparr>isWindows = False,
      hasBinary = (\<lambda>b. False),
      tmpPath = ''/tmp/stage'',
      optionsFactory = (\<lambda>ob. Inr ob),
      iconBuild = (\<lambda>ob. (None, ob)),
      packager = (\<lambda>ob. Inr [''/out/app'']),
      ncp = (\<lambda>s d. None),
      existsSync = (\<lambda>p. True),
      writeFileSync = (\<lambda>p d. None),
      readJsonSync = (\<lambda>p. Inr [(''name'', JStr ''placeholder'')]),
      path_join = simple_join,
      path_extname = simple_extname,
      md5_hex = (\<lambda>u. ''c984d06aafbecf6bc55569f964148ea3''),
      kebabCase = (\<lambda>s. hyphenate (word_runs [] s)),
      toLowerCase = map ascii_lower\<rparr>"

definition win_options :: obj where
  "win_options =
     [(''name'', JStr ''My App''),
      (''targetUrl'', JStr ''https://example.com''),
      (''platform'', JStr ''win32''),
      (''dir'', JStr ''/src/app''),
      (''icon'', JStr ''app.ico''),
      (''onReady'', JFun 0)]"

definition linux_options :: obj where
  "linux_options =
     [(''name'', JStr ''My App''),
      (''targetUrl'', JStr ''https://example.com''),
      (''platform'', JStr ''linux''),
      (''dir'', JStr ''/src/app''),
      (''icon'', JStr ''app.png''),
      (''inject'', JArr [JStr ''missing.js''])]"

definition start :: "obj \<Rightarrow> world" where
  "start ob = \<lparr>heap = [ob], trace = []\<rparr>"

text \<open>Hosts on which no injection asset exists, and on which moreover every copy fails.\<close>

definition missing_host :: env where
  "missing_host = linux_host\<lparr>existsSync := (\<lambda>p. False)\<rparr>"

definition readonly_host :: env where
  "readonly_host = missing_host\<lparr>ncp := (\<lambda>s d. Some (Error ''EACCES''))\<rparr>"

text \<open>
  Hosts on which only the icon build fails (it reports an error and hands back the
  configuration it was given), on which only the copy of the icon fails, on which the
  packaging engine rejects, and on which it returns no path.
\<close>

definition icon_build_fails_host :: env where
  "icon_build_fails_host =
     linux_host\<lparr>iconBuild := (\<lambda>ob. (Some (Error ''icon conversion failed''), ob))\<rparr>"

definition icon_copy_fails_host :: env where
  "icon_copy_fails_host =
     linux_host\<lparr>ncp := (\<lambda>s d. if s = ''app.png'' then Some (Error ''EACCES'') else None)\<rparr>"

definition packager_fails_host :: env where
  "packager_fails_host = linux_host\<lparr>packager := (\<lambda>ob. Inl (Error ''EEXIST''))\<rparr>"

definition packager_empty_host :: env where
  "packager_empty_host = linux_host\<lparr>packager := (\<lambda>ob. Inr [])\<rparr>"

text \<open>\<open>linux_options\<close> after the copying stage.\<close>

definition staged_linux_options :: obj where
  "staged_linux_options = AList.update ''dir'' (JStr ''/tmp/stage'') linux_options"

section \<open>The JSON round trip\<close>

lemma length_json_copy_props: "length (json_copy_props kvs) \<le> length kvs"
  by (induction kvs) auto

lemma json_copy_props_shorter:
  "unwritten v \<Longrightarrow> json_copy_props kvs \<noteq> (k, v) # kvs"
proof
  assume "json_copy_props kvs = (k, v) # kvs"
  then have "length (json_copy_props kvs) = Suc (length kvs)" by simp
  with length_json_copy_props [of kvs] show False by simp
qed

lemma unwritten_not_serializable: "unwritten v \<Longrightarrow> \<not> serializable v"
  by (cases v) auto

lemma json_copy_fixed:
  "(json_copy v = v) = serializable v"
  "(json_copy_elems vs = vs) = serializable_elems vs"
  "(json_copy_props kvs = kvs) = serializable_props kvs"
proof (induction v and vs and kvs rule: json_copy_json_copy_elems_json_copy_props.induct)
  case (14 k v kvs)
  show ?case
  proof (cases "unwritten v")
    case True
    with json_copy_props_shorter [OF True, of kvs k] unwritten_not_serializable [OF True]
    show ?thesis by simp
  next
    case False
    with 14 show ?thesis by simp
  qed
qed auto

lemma serializable_json_copy:
  "serializable (json_copy v)"
  "serializable_elems (json_copy_elems vs)"
  "serializable_props (json_copy_props kvs)"
  by (induction v and vs and kvs rule: json_copy_json_copy_elems_json_copy_props.induct) auto

lemma serializable_props_update:
  "serializable_props kvs \<Longrightarrow> serializable v \<Longrightarrow> serializable_props (AList.update k v kvs)"
  by (induction kvs) auto

lemma map_of_json_copy_props:
  "map_of kvs k = Some v \<Longrightarrow> \<not> unwritten v \<Longrightarrow>
   map_of (json_copy_props kvs) k = Some (json_copy v)"
  by (induction kvs) (auto split: if_splits)

lemma json_copy_props_id: "serializable_props kvs \<Longrightarrow> json_copy_props kvs = kvs"
  by (simp add: json_copy_fixed)

lemma get_prop_update:
  "get_prop (AList.update k v ob) k' = (if k' = k then v else get_prop ob k')"
  by (simp add: get_prop_def update_conv')

lemma get_prop_json_copy_props:
  "get_prop ob k = JStr s \<Longrightarrow> get_prop (json_copy_props ob) k = JStr s"
  using map_of_json_copy_props [of ob k "JStr s"]
  by (auto simp add: get_prop_def split: option.splits)

section \<open>The guards\<close>

lemma heap_emit [simp]: "heap (emit e w) = heap w"
  by (simp add: emit_def)

lemma trace_emit [simp]: "trace (emit e w) = trace w @ [e]"
  by (simp add: emit_def)

lemma is_object_emit [simp]: "is_object (emit e w) a = is_object w a"
  by (simp add: is_object_def)

lemma obj_at_emit [simp]: "obj_at (emit e w) a = obj_at w a"
  by (simp add: obj_at_def)

lemma removeInvalidOptions_eval:
  assumes "is_object w options"
  shows "removeInvalidOptions en options param w =
    (Inr (length (heap w)),
     if guard_fires en (obj_at w options)
     then \<lparr>heap = heap w @ [AList.update param JNull (json_copy_props (obj_at w options))],
           trace = trace w @ [Warn (wine_option_warning param)]\<rparr>
     else \<lparr>heap = heap w @ [json_copy_props (obj_at w options)], trace = trace w\<rparr>)"
  using assms
  by (simp add: removeInvalidOptions_def alloc_def assign_def emit_def obj_at_def
      is_object_def nth_append Let_def guard_fires_def)

lemma maybeNoIconOption_eval:
  assumes "is_object w options"
  shows "maybeNoIconOption en options w =
    (Inr (length (heap w)),
     if guard_fires en (obj_at w options)
     then \<lparr>heap = heap w @ [AList.update ''icon'' JNull (json_copy_props (obj_at w options))],
           trace = trace w @ [Warn wine_icon_warning]\<rparr>
     else \<lparr>heap = heap w @ [json_copy_props (obj_at w options)], trace = trace w\<rparr>)"
  using assms
  by (simp add: maybeNoIconOption_def alloc_def assign_def emit_def obj_at_def
      is_object_def nth_append Let_def guard_fires_def)

lemmas wrapper_defs =
  maybeNoAppCopyrightOption_def maybeNoAppVersionOption_def maybeNoBuildVersionOption_def
  maybeNoVersionStringOption_def maybeNoWin32metadataOption_def

text \<open>
  C2. A guard returns the address of a new object and leaves every object that existed
  before the call as it was, the one it was given in particular; this holds also when the
  guard has set the icon of the new object to \<^verbatim>\<open>null\<close>.
\<close>

theorem guard_never_mutates_input:
  assumes "is_object w options"
    and "g \<in> set (guards en) \<or> g = (\<lambda>opts. removeInvalidOptions en opts param)"
  shows "(\<exists>copy w'. g options w = (Inr copy, w')
           \<and> copy \<noteq> options \<and> \<not> is_object w copy \<and> is_object w' copy
           \<and> obj_at w' options = obj_at w options
           \<and> take (length (heap w)) (heap w') = heap w)
       \<and> (\<exists>copy w'. maybeNoIconOption en options w = (Inr copy, w')
           \<and> get_prop (obj_at w' options) ''icon'' = get_prop (obj_at w options) ''icon''
           \<and> (guard_fires en (obj_at w options)
                \<longrightarrow> get_prop (obj_at w' copy) ''icon'' = JNull))"
proof -
  from assms(2) consider "g = maybeNoIconOption en"
    | p where "g = (\<lambda>opts. removeInvalidOptions en opts p)"
    by (auto simp add: guards_def wrapper_defs fun_eq_iff)
  then have "\<exists>copy w'. g options w = (Inr copy, w')
           \<and> copy \<noteq> options \<and> \<not> is_object w copy \<and> is_object w' copy
           \<and> obj_at w' options = obj_at w options
           \<and> take (length (heap w)) (heap w') = heap w"
  proof cases
    case 1
    with assms(1) show ?thesis
      by (auto simp add: maybeNoIconOption_eval obj_at_def is_object_def nth_append)
  next
    case 2
    with assms(1) show ?thesis
      by (auto simp add: removeInvalidOptions_eval obj_at_def is_object_def nth_append)
  qed
  moreover from assms(1)
  have "\<exists>copy w'. maybeNoIconOption en options w = (Inr copy, w')
           \<and> get_prop (obj_at w' options) ''icon'' = get_prop (obj_at w options) ''icon''
           \<and> (guard_fires en (obj_at w options)
                \<longrightarrow> get_prop (obj_at w' copy) ''icon'' = JNull)"
    by (auto simp add: maybeNoIconOption_eval obj_at_def is_object_def nth_append
        get_prop_update)
  ultimately show ?thesis by blast
qed

theorem guard_never_mutates_input_witness:
  "is_object (start win_options) 0
   \<and> maybeNoWin32metadataOption linux_host \<in> set (guards linux_host)
   \<and> guard_fires linux_host (obj_at (start win_options) 0)
   \<and> (\<exists>copy w'. maybeNoWin32metadataOption linux_host 0 (start win_options) = (Inr copy, w')
           \<and> copy \<noteq> 0 \<and> \<not> is_object (start win_options) copy \<and> is_object w' copy
           \<and> obj_at w' 0 = obj_at (start win_options) 0
           \<and> take (length (heap (start win_options))) (heap w') = heap (start win_options))
   \<and> (\<exists>copy w'. maybeNoIconOption linux_host 0 (start win_options) = (Inr copy, w')
           \<and> get_prop (obj_at w' 0) ''icon'' = get_prop (obj_at (start win_options) 0) ''icon''
           \<and> get_prop (obj_at w' copy) ''icon'' = JNull)"
proof -
  have a: "is_object (start win_options) 0"
    by (simp add: is_object_def start_def)
  have b: "maybeNoWin32metadataOption linux_host \<in> set (guards linux_host)"
    by (simp add: guards_def)
  have c: "guard_fires linux_host (obj_at (start win_options) 0)"
    by (simp add: guard_fires_def obj_at_def start_def win_options_def get_prop_def
        linux_host_def)
  from guard_never_mutates_input [OF a disjI1 [OF b]] a b c show ?thesis by blast
qed


lemma guard_steps:
  assumes "g \<in> set (guards en) \<or> g = (\<lambda>opts. removeInvalidOptions en opts param)"
  obtains "g = maybeNoIconOption en" | p where "g = (\<lambda>opts. removeInvalidOptions en opts p)"
  using assms by (auto simp add: guards_def wrapper_defs fun_eq_iff)

section \<open>The packaging stage on a host without Wine\<close>

lemma guard_fires_update:
  "guard_fires en ob \<Longrightarrow> k \<noteq> ''platform'' \<Longrightarrow> guard_fires en (AList.update k v ob)"
  by (simp add: guard_fires_def get_prop_update)

lemma guard_fires_json_copy:
  "guard_fires en ob \<Longrightarrow> guard_fires en (json_copy_props ob)"
  by (simp add: guard_fires_def get_prop_json_copy_props)

lemma fired_step:
  assumes "guard_fires en ob" and "serializable_props ob" and "obj_at w a = ob"
    and "is_object w a"
  shows "removeInvalidOptions en a param w =
    (Inr (length (heap w)),
     \<lparr>heap = heap w @ [AList.update param JNull ob],
      trace = trace w @ [Warn (wine_option_warning param)]\<rparr>)"
  using assms by (simp add: removeInvalidOptions_eval json_copy_props_id)

lemma sanitize_fires:
  assumes ob: "is_object w opts" and fires: "guard_fires en (obj_at w opts)"
  shows "\<exists>hs. sanitize en opts w =
    (Inr (length (heap w) + 5),
     \<lparr>heap = heap w @ hs @ [sanitized (obj_at w opts)],
      trace = trace w @
        [Warn wine_icon_warning,
         Warn (wine_option_warning ''appCopyright''),
         Warn (wine_option_warning ''appVersion''),
         Warn (wine_option_warning ''buildVersion''),
         Warn (wine_option_warning ''versionString''),
         Warn (wine_option_warning ''win32metadata'')]\<rparr>) \<and> length hs = 5"
proof -
  let ?o = "obj_at w opts"
  let ?c1 = "AList.update ''icon'' JNull (json_copy_props ?o)"
  let ?c2 = "AList.update ''appCopyright'' JNull ?c1"
  let ?c3 = "AList.update ''appVersion'' JNull ?c2"
  let ?c4 = "AList.update ''buildVersion'' JNull ?c3"
  let ?c5 = "AList.update ''versionString'' JNull ?c4"
  let ?n = "length (heap w)"
  have f1: "guard_fires en ?c1"
    using fires by (simp add: guard_fires_json_copy guard_fires_update)
  then have f2: "guard_fires en ?c2" by (simp add: guard_fires_update)
  then have f3: "guard_fires en ?c3" by (simp add: guard_fires_update)
  then have f4: "guard_fires en ?c4" by (simp add: guard_fires_update)
  then have f5: "guard_fires en ?c5" by (simp add: guard_fires_update)
  have s1: "serializable_props ?c1"
    by (simp add: serializable_props_update serializable_json_copy)
  then have s2: "serializable_props ?c2" by (simp add: serializable_props_update)
  then have s3: "serializable_props ?c3" by (simp add: serializable_props_update)
  then have s4: "serializable_props ?c4" by (simp add: serializable_props_update)
  then have s5: "serializable_props ?c5" by (simp add: serializable_props_update)
  let ?w1 = "\<lparr>heap = heap w @ [?c1], trace = trace w @ [Warn wine_icon_warning]\<rparr>"
  let ?w2 = "\<lparr>heap = heap ?w1 @ [?c2],
              trace = trace ?w1 @ [Warn (wine_option_warning ''appCopyright'')]\<rparr>"
  let ?w3 = "\<lparr>heap = heap ?w2 @ [?c3],
              trace = trace ?w2 @ [Warn (wine_option_warning ''appVersion'')]\<rparr>"
  let ?w4 = "\<lparr>heap = heap ?w3 @ [?c4],
              trace = trace ?w3 @ [Warn (wine_option_warning ''buildVersion'')]\<rparr>"
  let ?w5 = "\<lparr>heap = heap ?w4 @ [?c5],
              trace = trace ?w4 @ [Warn (wine_option_warning ''versionString'')]\<rparr>"
  let ?w6 = "\<lparr>heap = heap ?w5 @ [sanitized ?o],
              trace = trace ?w5 @ [Warn (wine_option_warning ''win32metadata'')]\<rparr>"
  have e1: "maybeNoIconOption en opts w = (Inr ?n, ?w1)"
    using fires by (simp add: maybeNoIconOption_eval [OF ob])
  have e2: "removeInvalidOptions en ?n ''appCopyright'' ?w1 = (Inr (?n + 1), ?w2)"
    using fired_step [OF f1 s1, of ?w1 ?n] by (simp add: obj_at_def is_object_def)
  have e3: "removeInvalidOptions en (?n + 1) ''appVersion'' ?w2 = (Inr (?n + 2), ?w3)"
    using fired_step [OF f2 s2, of ?w2 "?n + 1"]
    by (simp add: obj_at_def is_object_def nth_append)
  have e4: "removeInvalidOptions en (?n + 2) ''buildVersion'' ?w3 = (Inr (?n + 3), ?w4)"
    using fired_step [OF f3 s3, of ?w3 "?n + 2"]
    by (simp add: obj_at_def is_object_def nth_append)
  have e5: "removeInvalidOptions en (?n + 3) ''versionString'' ?w4 = (Inr (?n + 4), ?w5)"
    using fired_step [OF f4 s4, of ?w4 "?n + 3"]
    by (simp add: obj_at_def is_object_def nth_append)
  have e6: "removeInvalidOptions en (?n + 4) ''win32metadata'' ?w5 = (Inr (?n + 5), ?w6)"
    using fired_step [OF f5 s5, of ?w5 "?n + 4"]
    by (simp add: obj_at_def is_object_def nth_append sanitized_def)
  have "sanitize en opts w = (Inr (?n + 5), ?w6)"
    unfolding sanitize_def wrapper_defs
    by (simp only: e1 e2 e3 e4 e5 e6 and_then_def prod.case sum.case)
  then have "sanitize en opts w =
    (Inr (?n + 5),
     \<lparr>heap = heap w @ [?c1, ?c2, ?c3, ?c4, ?c5] @ [sanitized ?o],
      trace = trace w @
        [Warn wine_icon_warning,
         Warn (wine_option_warning ''appCopyright''),
         Warn (wine_option_warning ''appVersion''),
         Warn (wine_option_warning ''buildVersion''),
         Warn (wine_option_warning ''versionString''),
         Warn (wine_option_warning ''win32metadata'')]\<rparr>)
    \<and> length [?c1, ?c2, ?c3, ?c4, ?c5] = 5"
    by simp
  then show ?thesis by blast
qed

lemma sanitized_nulls:
  "get_prop (sanitized ob) ''icon'' = JNull"
  "get_prop (sanitized ob) ''appCopyright'' = JNull"
  "get_prop (sanitized ob) ''buildVersion'' = JNull"
  "get_prop (sanitized ob) ''appVersion'' = JNull"
  "get_prop (sanitized ob) ''versionString'' = JNull"
  "get_prop (sanitized ob) ''win32metadata'' = JNull"
  by (simp_all add: sanitized_def get_prop_update)

lemma stage_packaging_fires:
  assumes "is_object w opts" and "guard_fires en (obj_at w opts)"
  shows "\<exists>r w'. stage_packaging en [AOpts opts] w = (r, w')
     \<and> new_events w w' =
        [Tick ''packaging'',
         Warn wine_icon_warning,
         Warn (wine_option_warning ''appCopyright''),
         Warn (wine_option_warning ''appVersion''),
         Warn (wine_option_warning ''buildVersion''),
         Warn (wine_option_warning ''versionString''),
         Warn (wine_option_warning ''win32metadata''),
         Override, PackagerCall (sanitized (obj_at w opts)), Restore]"
proof -
  let ?w1 = "emit (Tick ''packaging'') w"
  from assms have "is_object ?w1 opts" "guard_fires en (obj_at ?w1 opts)" by simp_all
  from sanitize_fires [OF this] obtain hs where
    "sanitize en opts ?w1 =
      (Inr (length (heap ?w1) + 5),
       \<lparr>heap = heap ?w1 @ hs @ [sanitized (obj_at ?w1 opts)],
        trace = trace ?w1 @
          [Warn wine_icon_warning,
           Warn (wine_option_warning ''appCopyright''),
           Warn (wine_option_warning ''appVersion''),
           Warn (wine_option_warning ''buildVersion''),
           Warn (wine_option_warning ''versionString''),
           Warn (wine_option_warning ''win32metadata'')]\<rparr>)"
    and "length hs = 5"
    by blast
  then show ?thesis
    by (simp add: stage_packaging_def Let_def new_events_def obj_at_def nth_append
        split: sum.split)
qed

text \<open>
  C1, as the code has it. On a host that is not Windows and has no \<^verbatim>\<open>wine\<close>, the packaging
  stage for a win32 configuration calls the packaging engine with a configuration whose
  \<^verbatim>\<open>icon\<close>, \<^verbatim>\<open>appCopyright\<close>, \<^verbatim>\<open>buildVersion\<close>, \<^verbatim>\<open>appVersion\<close>, \<^verbatim>\<open>versionString\<close> and
  \<^verbatim>\<open>win32metadata\<close> are all \<^verbatim>\<open>null\<close>, and it logs six warnings before the call: one about
  the icon, then one for each of the five other options, naming it.
\<close>

theorem packaging_without_wine_nulls_six_options:
  assumes "is_object w opts"
    and "get_prop (obj_at w opts) ''platform'' = JStr ''win32''"
    and "\<not> isWindows en"
    and "\<not> hasBinary en ''wine''"
  shows "\<exists>r w' cfg. stage_packaging en [AOpts opts] w = (r, w')
     \<and> new_events w w' =
        [Tick ''packaging'',
         Warn wine_icon_warning,
         Warn (wine_option_warning ''appCopyright''),
         Warn (wine_option_warning ''appVersion''),
         Warn (wine_option_warning ''buildVersion''),
         Warn (wine_option_warning ''versionString''),
         Warn (wine_option_warning ''win32metadata''),
         Override, PackagerCall cfg, Restore]
     \<and> get_prop cfg ''icon'' = JNull
     \<and> get_prop cfg ''appCopyright'' = JNull
     \<and> get_prop cfg ''buildVersion'' = JNull
     \<and> get_prop cfg ''appVersion'' = JNull
     \<and> get_prop cfg ''versionString'' = JNull
     \<and> get_prop cfg ''win32metadata'' = JNull
     \<and> length (warnings_of (new_events w w')) = 6"
proof -
  from assms have "guard_fires en (obj_at w opts)" by (simp add: guard_fires_def)
  from stage_packaging_fires [OF assms(1) this] obtain r w' where
    run: "stage_packaging en [AOpts opts] w = (r, w')"
    and ev: "new_events w w' =
        [Tick ''packaging'',
         Warn wine_icon_warning,
         Warn (wine_option_warning ''appCopyright''),
         Warn (wine_option_warning ''appVersion''),
         Warn (wine_option_warning ''buildVersion''),
         Warn (wine_option_warning ''versionString''),
         Warn (wine_option_warning ''win32metadata''),
         Override, PackagerCall (sanitized (obj_at w opts)), Restore]"
    by blast
  from ev have "length (warnings_of (new_events w w')) = 6" by simp
  with run ev show ?thesis by (simp add: sanitized_nulls)
qed

lemma win_options_on_linux_host:
  "is_object (start win_options) 0"
  "get_prop (obj_at (start win_options) 0) ''platform'' = JStr ''win32''"
  "\<not> isWindows linux_host"
  "\<not> hasBinary linux_host ''wine''"
  by (simp_all add: is_object_def obj_at_def start_def win_options_def get_prop_def
      linux_host_def)

theorem packaging_without_wine_nulls_six_options_witness:
  "is_object (start win_options) 0
   \<and> get_prop (obj_at (start win_options) 0) ''platform'' = JStr ''win32''
   \<and> \<not> isWindows linux_host
   \<and> \<not> hasBinary linux_host ''wine''
   \<and> (\<exists>r w' cfg. stage_packaging linux_host [AOpts 0] (start win_options) = (r, w')
        \<and> PackagerCall cfg \<in> set (new_events (start win_options) w')
        \<and> get_prop cfg ''icon'' = JNull
        \<and> get_prop cfg ''win32metadata'' = JNull
        \<and> length (warnings_of (new_events (start win_options) w')) = 6)"
proof -
  from packaging_without_wine_nulls_six_options [OF win_options_on_linux_host]
  obtain r w' cfg where
    "stage_packaging linux_host [AOpts 0] (start win_options) = (r, w')"
    "new_events (start win_options) w' =
        [Tick ''packaging'',
         Warn wine_icon_warning,
         Warn (wine_option_warning ''appCopyright''),
         Warn (wine_option_warning ''appVersion''),
         Warn (wine_option_warning ''buildVersion''),
         Warn (wine_option_warning ''versionString''),
         Warn (wine_option_warning ''win32metadata''),
         Override, PackagerCall cfg, Restore]"
    "get_prop cfg ''icon'' = JNull" "get_prop cfg ''win32metadata'' = JNull"
    "length (warnings_of (new_events (start win_options) w')) = 6"
    by blast
  then have "\<exists>r w' cfg. stage_packaging linux_host [AOpts 0] (start win_options) = (r, w')
        \<and> PackagerCall cfg \<in> set (new_events (start win_options) w')
        \<and> get_prop cfg ''icon'' = JNull
        \<and> get_prop cfg ''win32metadata'' = JNull
        \<and> length (warnings_of (new_events (start win_options) w')) = 6"
    by (intro exI [of _ r] exI [of _ w'] exI [of _ cfg]) simp
  with win_options_on_linux_host show ?thesis by blast
qed

text \<open>
  The claim C1 as it is written counts five warnings. For the win32 configuration
  \<open>win_options\<close> on \<open>linux_host\<close> (not Windows, no \<^verbatim>\<open>wine\<close>) the packaging stage logs six.
\<close>

theorem five_warnings_counterexample:
  "get_prop (obj_at (start win_options) 0) ''platform'' = JStr ''win32''
   \<and> \<not> isWindows linux_host
   \<and> \<not> hasBinary linux_host ''wine''
   \<and> length (warnings_of (new_events (start win_options)
        (snd (stage_packaging linux_host [AOpts 0] (start win_options))))) \<noteq> 5"
proof -
  have "guard_fires linux_host (obj_at (start win_options) 0)"
    using win_options_on_linux_host by (simp add: guard_fires_def)
  from stage_packaging_fires [OF win_options_on_linux_host(1) this]
  have "length (warnings_of (new_events (start win_options)
        (snd (stage_packaging linux_host [AOpts 0] (start win_options))))) = 6"
    by auto
  with win_options_on_linux_host show ?thesis by simp
qed


section \<open>The App Arg Selector and the Name Disambiguator\<close>

lemma map_of_tabulate:
  "map_of (map (\<lambda>k. (k, f k)) ks) k = (if k \<in> set ks then Some (f k) else None)"
  by (induction ks) auto

lemma distinct_allow_list: "distinct allow_list"
  by (simp add: allow_list_def)

text \<open>
  C4. For every configuration object, also one that lacks listed properties,
  \<^verbatim>\<open>selectAppArgs\<close> returns (it does not throw) an object whose keys are exactly the
  allow-list, each once; every listed key has the value the input has for it
  (\<^verbatim>\<open>undefined\<close> when the input has none); no other key is in the result; and selecting from
  the result gives the result again.
\<close>

theorem selectAppArgs_total_and_idempotent:
  "\<exists>snap. selectAppArgs (JObj options) = Inr snap
     \<and> map fst snap = allow_list
     \<and> distinct (map fst snap)
     \<and> (\<forall>k \<in> set allow_list. get_prop snap k = get_prop options k)
     \<and> (\<forall>k. k \<notin> set allow_list \<longrightarrow> map_of snap k = None)
     \<and> selectAppArgs (JObj snap) = Inr snap"
proof -
  let ?snap = "map (\<lambda>k. (k, get_prop options k)) allow_list"
  have keys: "map fst ?snap = allow_list" by (simp add: comp_def)
  have vals: "get_prop ?snap k = get_prop options k" if "k \<in> set allow_list" for k
    using that by (simp add: get_prop_def [of ?snap] map_of_tabulate)
  have out: "map_of ?snap k = None" if "k \<notin> set allow_list" for k
    using that by (simp add: map_of_tabulate)
  have idem: "map (\<lambda>k. (k, get_prop ?snap k)) allow_list = ?snap"
    using vals by (intro map_cong) simp_all
  show ?thesis
    using keys vals out idem distinct_allow_list by (intro exI [of _ ?snap]) simp
qed













theorem selectAppArgs_total_and_idempotent_witness:
  "''name'' \<in> set allow_list \<and> ''counter'' \<in> set allow_list \<and> ''dir'' \<notin> set allow_list
   \<and> (\<exists>snap. selectAppArgs (JObj linux_options) = Inr snap
        \<and> get_prop snap ''name'' = JStr ''My App''
        \<and> get_prop snap ''counter'' = JUndefined
        \<and> map_of snap ''dir'' = None
        \<and> selectAppArgs (JObj snap) = Inr snap)"
proof -
  have a: "''name'' \<in> set allow_list" "''counter'' \<in> set allow_list"
    "''dir'' \<notin> set allow_list"
    by (simp_all add: allow_list_def)
  have b: "get_prop linux_options ''name'' = JStr ''My App''"
    "get_prop linux_options ''counter'' = JUndefined"
    by (simp_all add: linux_options_def get_prop_def)
  from selectAppArgs_total_and_idempotent [of linux_options] obtain snap where
    "selectAppArgs (JObj linux_options) = Inr snap"
    "\<forall>k \<in> set allow_list. get_prop snap k = get_prop linux_options k"
    "\<forall>k. k \<notin> set allow_list \<longrightarrow> map_of snap k = None"
    "selectAppArgs (JObj snap) = Inr snap"
    by blast
  with a b have "selectAppArgs (JObj linux_options) = Inr snap
        \<and> get_prop snap ''name'' = JStr ''My App''
        \<and> get_prop snap ''counter'' = JUndefined
        \<and> map_of snap ''dir'' = None
        \<and> selectAppArgs (JObj snap) = Inr snap"
    by metis
  with a show ?thesis by blast
qed

section \<open>The Staging Copier\<close>

lemma quietly_refl [simp]: "quietly w w"
  by (simp add: quietly_def)

lemma quietly_trans: "quietly w w1 \<Longrightarrow> quietly w1 w2 \<Longrightarrow> quietly w w2"
  by (auto simp add: quietly_def)

lemma quietly_emit: "quiet e \<Longrightarrow> quietly w (emit e w)"
  by (simp add: quietly_def)

lemma quietly_emit_after: "quietly w w1 \<Longrightarrow> quiet e \<Longrightarrow> quietly w (emit e w1)"
  by (auto simp add: quietly_def)

lemma quietly_copy_script: "quietly w (snd (copy_script en dest src w))"
  by (simp add: copy_script_def Let_def quietly_emit split: jsval.split option.split)

lemma quietly_copy_scripts: "quietly w (snd (copy_scripts en dest srcs w))"
proof (induction srcs arbitrary: w)
  case Nil
  then show ?case by simp
next
  case (Cons src srcs)
  from quietly_trans [OF quietly_copy_script [of w en dest src]
      Cons.IH [of "snd (copy_script en dest src w)"]]
  show ?case by (simp add: split_beta)
qed

lemma quietly_maybeCopyScripts: "quietly w (snd (maybeCopyScripts en srcs dest w))"
  using quietly_copy_scripts [of w en dest]
  by (simp add: maybeCopyScripts_def split_beta split: jsval.split)

lemma quietly_changeAppPackageJsonName:
  "quietly w (snd (changeAppPackageJsonName en appPath name w))"
  by (simp add: changeAppPackageJsonName_def Let_def quietly_emit quietly_emit_after
      split: sum.split option.split)

lemma quietly_buildApp: "quietly w (snd (buildApp en src dest options w))"
proof -
  have step: "quietly w (snd (case changeAppPackageJsonName en dest name w4 of
        (Uncaught e, w5) \<Rightarrow> (Uncaught e, w5)
      | (Done u, w5) \<Rightarrow> (Done None, w5)))" if "quietly w w4" for name w4
    using quietly_trans [OF that quietly_changeAppPackageJsonName [of w4 en dest name]]
    by (simp add: split_beta split: outcome.split)
  have scripts: "quietly w (snd (case maybeCopyScripts en srcs dest w2 of
        (Uncaught e, w3) \<Rightarrow> (Uncaught e, w3)
      | (Done r, w3) \<Rightarrow>
          let w4 = (case r of Some err \<Rightarrow> emit (WarnError err) w3 | None \<Rightarrow> w3)
          in (case changeAppPackageJsonName en dest name w4 of
                (Uncaught e, w5) \<Rightarrow> (Uncaught e, w5)
              | (Done u, w5) \<Rightarrow> (Done None, w5))))" if "quietly w w2" for srcs name w2
  proof -
    from quietly_trans [OF that quietly_maybeCopyScripts [of w2 en srcs dest]]
    have q: "quietly w (snd (maybeCopyScripts en srcs dest w2))" .
    then show ?thesis
      by (cases "maybeCopyScripts en srcs dest w2")
        (auto simp add: Let_def quietly_emit_after intro!: step split: outcome.split option.split)
  qed
  show ?thesis
    by (simp add: buildApp_def Let_def quietly_emit quietly_emit_after scripts
        split: jsval.split option.split)
qed

lemma copy_script_heap: "heap (snd (copy_script en dest src w)) = heap w"
  by (simp add: copy_script_def Let_def split: jsval.split option.split)

lemma copy_script_missing:
  "\<not> existsSync en s \<Longrightarrow> fst (copy_script en dest (JStr s) w) = Some file_not_found"
  by (simp add: copy_script_def)

lemma copy_scripts_missing:
  "JStr s \<in> set srcs \<Longrightarrow> \<not> existsSync en s \<Longrightarrow>
   Some file_not_found \<in> set (fst (copy_scripts en dest srcs w))"
proof (induction srcs arbitrary: w)
  case Nil
  then show ?case by simp
next
  case (Cons src srcs)
  obtain r w1 where 1: "copy_script en dest src w = (r, w1)" by (cases "copy_script en dest src w")
  obtain rs w2 where 2: "copy_scripts en dest srcs w1 = (rs, w2)"
    by (cases "copy_scripts en dest srcs w1")
  show ?case
  proof (cases "src = JStr s")
    case True
    with copy_script_missing [OF Cons.prems(2), of dest w] 1 have "r = Some file_not_found"
      by simp
    with 1 2 show ?thesis by simp
  next
    case False
    with Cons.prems have "JStr s \<in> set srcs" by simp
    from Cons.IH [OF this Cons.prems(2), of w1] 1 2 show ?thesis by simp
  qed
qed

lemma maybeCopyScripts_missing:
  assumes "JStr s \<in> set srcs" and "\<not> existsSync en s"
  shows "fst (maybeCopyScripts en (JArr srcs) dest w) = Done (Some file_not_found)"
  using copy_scripts_missing [OF assms, of dest w]
  by (cases "copy_scripts en dest srcs w") (simp add: maybeCopyScripts_def promise_all_def)

text \<open>
  C6, as the code has it. When \<^verbatim>\<open>options.inject\<close> lists a path that \<^verbatim>\<open>existsSync\<close> reports
  missing, \<^verbatim>\<open>maybeCopyScripts\<close> rejects with the file-not-found error, but \<^verbatim>\<open>buildApp\<close> only
  passes that rejection to \<^verbatim>\<open>log.warn\<close>: if the full-tree copy succeeded, the files can be
  written and \<^verbatim>\<open>package.json\<close> can be read, it calls back without an error. What ends the
  stage is a failure of the full-tree copy, which the callback reports as an error, and an
  exception while the snapshot is written or \<^verbatim>\<open>package.json\<close> is read, which escapes.
\<close>

theorem missing_inject_asset_is_only_logged:
  assumes "get_prop options ''inject'' = JArr srcs"
    and "JStr s \<in> set srcs"
    and "\<not> existsSync en s"
  shows "fst (maybeCopyScripts en (get_prop options ''inject'') dest w)
           = Done (Some file_not_found)
     \<and> (ncp en src dest = None
          \<and> (\<forall>p doc. writeFileSync en p doc = None)
          \<and> (\<exists>packageJson. readJsonSync en (path_join en [dest, ''/package.json''])
                 = Inr packageJson)
         \<longrightarrow> (\<exists>w'. buildApp en (JStr src) dest options w = (Done None, w')
               \<and> WarnError file_not_found \<in> set (new_events w w')))
     \<and> (\<forall>e. ncp en src dest = Some e \<longrightarrow>
          fst (buildApp en (JStr src) dest options w)
            = Done (Some (ErrorText (''Error Copying temporary directory: '' @ error_text e))))
     \<and> (\<forall>e snapshot. ncp en src dest = None
          \<and> selectAppArgs (JObj options) = Inr snapshot
          \<and> writeFileSync en (path_join en [dest, ''/nativefier.json''])
                (json_copy_props snapshot) = Some e
         \<longrightarrow> fst (buildApp en (JStr src) dest options w) = Uncaught e)
     \<and> (\<forall>e. ncp en src dest = None
          \<and> (\<forall>doc. writeFileSync en (path_join en [dest, ''/nativefier.json'']) doc = None)
          \<and> readJsonSync en (path_join en [dest, ''/package.json'']) = Inl e
         \<longrightarrow> fst (buildApp en (JStr src) dest options w) = Uncaught e)"
proof -
  have rej: "fst (maybeCopyScripts en (get_prop options ''inject'') dest w0)
           = Done (Some file_not_found)" for w0
    using maybeCopyScripts_missing [OF assms(2,3)] assms(1) by simp
  let ?w2 = "emit (WriteJson (path_join en [dest, ''/nativefier.json''])
               (json_copy_props (map (\<lambda>k. (k, get_prop options k)) allow_list)))
             (emit (CopyCall src dest) w)"
  obtain r w3 where m: "maybeCopyScripts en (get_prop options ''inject'') dest ?w2 = (r, w3)"
    by (cases "maybeCopyScripts en (get_prop options ''inject'') dest ?w2")
  with rej [of ?w2] have r: "r = Done (Some file_not_found)" by simp
  from quietly_maybeCopyScripts [of ?w2 en "get_prop options ''inject''" dest] m
  obtain evs where evs: "trace w3 = trace ?w2 @ evs"
    by (auto simp add: quietly_def)
  have ok: "\<exists>w'. buildApp en (JStr src) dest options w = (Done None, w')
               \<and> WarnError file_not_found \<in> set (new_events w w')"
    if "ncp en src dest = None" "\<forall>p doc. writeFileSync en p doc = None"
      "readJsonSync en (path_join en [dest, ''/package.json'']) = Inr packageJson"
    for packageJson
    using that m r evs
    by (simp add: buildApp_def changeAppPackageJsonName_def Let_def new_events_def)
  have copy: "fst (buildApp en (JStr src) dest options w)
            = Done (Some (ErrorText (''Error Copying temporary directory: '' @ error_text e)))"
    if "ncp en src dest = Some e" for e
    using that by (simp add: buildApp_def)
  have snap: "fst (buildApp en (JStr src) dest options w) = Uncaught e"
    if "ncp en src dest = None" "selectAppArgs (JObj options) = Inr snapshot"
      "writeFileSync en (path_join en [dest, ''/nativefier.json''])
         (json_copy_props snapshot) = Some e"
    for e snapshot
    using that by (auto simp add: buildApp_def Let_def)
  have pkg: "fst (buildApp en (JStr src) dest options w) = Uncaught e"
    if "ncp en src dest = None"
      "\<forall>doc. writeFileSync en (path_join en [dest, ''/nativefier.json'']) doc = None"
      "readJsonSync en (path_join en [dest, ''/package.json'']) = Inl e"
    for e
    using that m r by (simp add: buildApp_def changeAppPackageJsonName_def Let_def)
  from rej [of w] ok copy snap pkg show ?thesis by blast
qed

lemma missing_host_facts:
  "get_prop linux_options ''inject'' = JArr [JStr ''missing.js'']"
  "JStr ''missing.js'' \<in> set [JStr ''missing.js'']"
  "\<not> existsSync missing_host ''missing.js''"
  "readJsonSync missing_host (path_join missing_host [''/tmp/stage'', ''/package.json''])
     = Inr [(''name'', JStr ''placeholder'')]"
  "\<forall>p doc. writeFileSync missing_host p doc = None"
  "ncp missing_host ''/src/app'' ''/tmp/stage'' = None"
  by (simp_all add: linux_options_def get_prop_def missing_host_def linux_host_def)

lemma readonly_host_facts:
  "\<not> existsSync readonly_host ''missing.js''"
  "readJsonSync readonly_host (path_join readonly_host [''/tmp/stage'', ''/package.json''])
     = Inr [(''name'', JStr ''placeholder'')]"
  "\<forall>p doc. writeFileSync readonly_host p doc = None"
  "ncp readonly_host ''/src/app'' ''/tmp/stage'' = Some (Error ''EACCES'')"
  by (simp_all add: readonly_host_def missing_host_def linux_host_def)

theorem missing_inject_asset_is_only_logged_witness:
  "get_prop linux_options ''inject'' = JArr [JStr ''missing.js'']
   \<and> \<not> existsSync missing_host ''missing.js''
   \<and> ncp missing_host ''/src/app'' ''/tmp/stage'' = None
   \<and> (\<exists>w'. buildApp missing_host (JStr ''/src/app'') ''/tmp/stage'' linux_options
              (start linux_options) = (Done None, w')
          \<and> WarnError file_not_found \<in> set (new_events (start linux_options) w'))
   \<and> \<not> existsSync readonly_host ''missing.js''
   \<and> ncp readonly_host ''/src/app'' ''/tmp/stage'' = Some (Error ''EACCES'')
   \<and> fst (buildApp readonly_host (JStr ''/src/app'') ''/tmp/stage'' linux_options
              (start linux_options))
        = Done (Some (ErrorText ''Error Copying temporary directory: Error: EACCES''))"
proof -
  from missing_inject_asset_is_only_logged
    [OF missing_host_facts(1,2,3), where dest = "''/tmp/stage''"
      and w = "start linux_options" and src = "''/src/app''"]
    missing_host_facts(4,5,6)
  have 1: "\<exists>w'. buildApp missing_host (JStr ''/src/app'') ''/tmp/stage'' linux_options
              (start linux_options) = (Done None, w')
          \<and> WarnError file_not_found \<in> set (new_events (start linux_options) w')"
    by blast
  from missing_inject_asset_is_only_logged
    [OF missing_host_facts(1,2) readonly_host_facts(1), where dest = "''/tmp/stage''"
      and w = "start linux_options" and src = "''/src/app''"]
    readonly_host_facts(4)
  have 2: "fst (buildApp readonly_host (JStr ''/src/app'') ''/tmp/stage'' linux_options
              (start linux_options))
        = Done (Some (ErrorText (''Error Copying temporary directory: '' @
            error_text (Error ''EACCES''))))"
    by blast
  from 1 2 missing_host_facts readonly_host_facts show ?thesis by simp
qed

lemmas run_defs =
  buildMain_def stages_def final_callback_def stage_inferring_def stage_copying_def
  stage_icons_def stage_packaging_def stage_finalizing_def sanitize_def and_then_def
  wrapper_defs maybeNoIconOption_def removeInvalidOptions_def buildApp_def
  maybeCopyScripts_def copy_script_def promise_all_def changeAppPackageJsonName_def
  getAppPath_def maybeCopyIcons_def alloc_def emit_def is_object_def obj_at_def assign_def
  get_prop_def bad_args_def start_def Let_def simple_join_def simple_extname_def
  file_not_found_def new_events_def linux_host_def linux_options_def staged_linux_options_def

lemma buildApp_linux_options_missing_host:
  "fst (buildApp missing_host (JStr ''/src/app'') ''/tmp/stage'' linux_options w) = Done None"
  by (simp add: buildApp_def maybeCopyScripts_def copy_script_def promise_all_def
      changeAppPackageJsonName_def missing_host_def linux_host_def linux_options_def
      get_prop_def Let_def)

lemma buildMain_linux_options_missing_host:
  "fst (buildMain missing_host 0 (start linux_options))
     = Done (None, Some (APath ''/out/app''))"
  by (simp add: run_defs missing_host_def)

text \<open>
  The claim C6 as it is written makes the missing asset fatal for the stage. On
  \<open>missing_host\<close>, where \<^verbatim>\<open>existsSync\<close> finds nothing, with \<^verbatim>\<open>inject: ['missing.js']\<close>,
  \<^verbatim>\<open>buildApp\<close> calls back without an error, and the whole pipeline ends without an
  error and with the bundle path.
\<close>

theorem missing_inject_asset_counterexample:
  "get_prop linux_options ''inject'' = JArr [JStr ''missing.js'']
   \<and> \<not> existsSync missing_host ''missing.js''
   \<and> fst (buildApp missing_host (JStr ''/src/app'') ''/tmp/stage'' linux_options
          (start linux_options)) = Done None
   \<and> fst (buildMain missing_host 0 (start linux_options))
       = Done (None, Some (APath ''/out/app''))"
  using buildApp_linux_options_missing_host [of "start linux_options"]
    buildMain_linux_options_missing_host missing_host_facts(1,3) by simp


section \<open>The stages of the pipeline\<close>

lemma warned_refl [simp]: "warned w w"
  unfolding warned_def by (intro exI [of _ "[]"]) simp

lemma warned_trans: "warned w w1 \<Longrightarrow> warned w1 w2 \<Longrightarrow> warned w w2"
  unfolding warned_def
proof (elim exE conjE)
  fix hs ws hs' ws'
  assume "heap w1 = heap w @ hs" "trace w1 = trace w @ map Warn ws"
    "heap w2 = heap w1 @ hs'" "trace w2 = trace w1 @ map Warn ws'"
  then have "heap w2 = heap w @ (hs @ hs') \<and> trace w2 = trace w @ map Warn (ws @ ws')"
    by simp
  then show "\<exists>hs ws. heap w2 = heap w @ hs \<and> trace w2 = trace w @ map Warn ws" by blast
qed

lemma warned_step:
  "warned w \<lparr>heap = heap w @ [ob], trace = trace w @ [Warn m]\<rparr>"
  "warned w \<lparr>heap = heap w @ [ob], trace = trace w\<rparr>"
  unfolding warned_def
  by (intro exI [of _ "[ob]"] exI [of _ "[m]"], simp)
     (intro exI [of _ "[ob]"] exI [of _ "[]"], simp)

lemma guard_warned:
  assumes "is_object w a"
    and "g \<in> set (guards en) \<or> g = (\<lambda>opts. removeInvalidOptions en opts param)"
  shows "\<exists>p w'. g a w = (Inr p, w') \<and> is_object w' p \<and> warned w w'"
  using assms(2)
proof (cases rule: guard_steps)
  case 1
  with assms(1) show ?thesis
    by (simp add: maybeNoIconOption_eval warned_step is_object_def)
next
  case (2 p)
  with assms(1) show ?thesis
    by (simp add: removeInvalidOptions_eval warned_step is_object_def)
qed

lemma guard_not_object:
  assumes "\<not> is_object w a"
  shows "maybeNoIconOption en a w = (Inl (TypeError ''options is not an object''), w)"
  using assms by (simp add: maybeNoIconOption_def)

lemma and_then_warned:
  assumes "\<exists>p w1. r = (Inr p, w1) \<and> is_object w1 p \<and> warned w w1"
    and "g \<in> set (guards en)"
  shows "\<exists>p w2. and_then r g = (Inr p, w2) \<and> is_object w2 p \<and> warned w w2"
proof -
  from assms(1) obtain p w1 where r: "r = (Inr p, w1)" "is_object w1 p" "warned w w1"
    by blast
  from guard_warned [OF r(2) disjI1 [OF assms(2)]] obtain q w2 where
    "g p w1 = (Inr q, w2)" "is_object w2 q" "warned w1 w2" by blast
  with r warned_trans [of w w1 w2] show ?thesis by (simp add: and_then_def)
qed

lemma sanitize_warned:
  assumes "is_object w opts"
  shows "\<exists>p w'. sanitize en opts w = (Inr p, w') \<and> is_object w' p \<and> warned w w'"
proof -
  have g: "maybeNoIconOption en \<in> set (guards en)"
    "maybeNoAppCopyrightOption en \<in> set (guards en)"
    "maybeNoAppVersionOption en \<in> set (guards en)"
    "maybeNoBuildVersionOption en \<in> set (guards en)"
    "maybeNoVersionStringOption en \<in> set (guards en)"
    "maybeNoWin32metadataOption en \<in> set (guards en)"
    by (simp_all add: guards_def)
  note s1 = guard_warned [OF assms disjI1 [OF g(1)]]
  note s2 = and_then_warned [OF s1 g(2)]
  note s3 = and_then_warned [OF s2 g(3)]
  note s4 = and_then_warned [OF s3 g(4)]
  note s5 = and_then_warned [OF s4 g(5)]
  note s6 = and_then_warned [OF s5 g(6)]
  from s6 show ?thesis by (simp add: sanitize_def)
qed

lemma sanitize_not_object:
  assumes "\<not> is_object w opts"
  shows "sanitize en opts w = (Inl (TypeError ''options is not an object''), w)"
  by (simp add: sanitize_def guard_not_object [OF assms] and_then_def)

lemma stage_packaging_summary:
  assumes "stage_packaging en args w = (r, w')"
  shows "(\<exists>ws e. r = Uncaught e \<and> trace w' = trace w @ Tick ''packaging'' # map Warn ws)
    \<or> (\<exists>ws opts cfg hs. args = [AOpts opts] \<and> is_object w opts
         \<and> trace w' = trace w @ Tick ''packaging'' # map Warn ws
                         @ [Override, PackagerCall cfg, Restore]
         \<and> heap w' = heap w @ hs
         \<and> r = (case packager en cfg of
                  Inr appPathArray \<Rightarrow> Done (None, [AOpts opts, APaths appPathArray])
                | Inl error \<Rightarrow> Done (Some error, [AOpts opts])))"
proof -
  let ?w1 = "emit (Tick ''packaging'') w"
  have bad: "trace ?w1 = trace w @ Tick ''packaging'' # map Warn []" by simp
  show ?thesis
  proof (cases "\<exists>opts. args = [AOpts opts] \<and> is_object w opts")
    case True
    then obtain opts where args: "args = [AOpts opts]" and ob: "is_object w opts" by blast
    from ob have "is_object ?w1 opts" by simp
    from sanitize_warned [OF this, of en] obtain p w2 where
      s: "sanitize en opts ?w1 = (Inr p, w2)" and "is_object w2 p" and "warned ?w1 w2"
      by blast
    then obtain hs ws where g: "heap w2 = heap w @ hs"
      "trace w2 = trace w @ Tick ''packaging'' # map Warn ws"
      by (auto simp add: warned_def)
    let ?cfg = "obj_at (emit Override w2) p"
    from assms args s g have
      "trace w' = trace w @ Tick ''packaging'' # map Warn ws
                         @ [Override, PackagerCall ?cfg, Restore]"
      "heap w' = heap w @ hs"
      "r = (case packager en ?cfg of
                  Inr appPathArray \<Rightarrow> Done (None, [AOpts opts, APaths appPathArray])
                | Inl error \<Rightarrow> Done (Some error, [AOpts opts]))"
      by (auto simp add: stage_packaging_def Let_def split: sum.splits)
    with args ob show ?thesis by blast
  next
    case False
    have "r = Uncaught (TypeError ''options is not an object'') \<and> w' = ?w1
       \<or> r = Uncaught (TypeError ''argument is not what the stage expects'') \<and> w' = ?w1"
    proof (cases "\<exists>opts. args = [AOpts opts]")
      case True
      then obtain opts where args: "args = [AOpts opts]" by blast
      with False have "\<not> is_object ?w1 opts" by simp
      from sanitize_not_object [OF this, of en] assms args show ?thesis
        by (simp add: stage_packaging_def Let_def)
    next
      case False
      with assms show ?thesis
        by (auto simp add: stage_packaging_def Let_def bad_args_def
            split: list.splits arg.splits)
    qed
    with bad show ?thesis by blast
  qed
qed

lemma quiet_no_tick: "list_all quiet evs \<Longrightarrow> Tick l \<notin> set evs"
  by (auto simp add: list_all_iff)

lemma quiet_no_packager: "list_all quiet evs \<Longrightarrow> PackagerCall c \<notin> set evs"
  by (auto simp add: list_all_iff)

lemma quiet_no_enter: "list_all quiet evs \<Longrightarrow> Enter f \<notin> set evs"
  by (auto simp add: list_all_iff)

lemma stage_inferring_summary:
  assumes "stage_inferring en options args w = (r, w')"
  shows "\<exists>evs hs. trace w' = trace w @ Tick ''inferring'' # evs \<and> list_all quiet evs
     \<and> heap w' = heap w @ hs
     \<and> (\<forall>res. r = Done (None, res) \<longrightarrow> (\<exists>a. res = [AOpts a] \<and> is_object w' a))"
proof -
  let ?w1 = "emit (Tick ''inferring'') w"
  let ?ob = "obj_at w options"
  let ?evs = "[ConsoleLog ''PACKAGE NAME 1: '' (get_prop ?ob ''name''), InferCall ?ob]"
  show ?thesis
  proof (cases "args \<noteq> [] \<or> \<not> is_object w options")
    case True
    with assms have "trace w' = trace w @ Tick ''inferring'' # []" "heap w' = heap w @ []"
      "\<forall>res. r \<noteq> Done (None, res)"
      by (auto simp add: stage_inferring_def Let_def bad_args_def)
    then show ?thesis by (intro exI [of _ "[]"]) simp
  next
    case False
    show ?thesis
    proof (cases "optionsFactory en ?ob")
      case (Inl error)
      with assms False have "trace w' = trace w @ Tick ''inferring'' # ?evs"
        "heap w' = heap w @ []" "\<forall>res. r \<noteq> Done (None, res)"
        by (auto simp add: stage_inferring_def Let_def)
      then show ?thesis by (intro exI [of _ ?evs] exI [of _ "[]"]) simp
    next
      case (Inr res)
      let ?evs' = "?evs @ [ConsoleLog ''PACKAGE NAME 1.5: '' (get_prop res ''name'')]"
      from Inr assms False have "trace w' = trace w @ Tick ''inferring'' # ?evs'"
        "heap w' = heap w @ [res]" "r = Done (None, [AOpts (length (heap w))])"
        by (auto simp add: stage_inferring_def Let_def alloc_def obj_at_def)
      then show ?thesis
        by (intro exI [of _ ?evs'] exI [of _ "[res]"]) (simp add: is_object_def)
    qed
  qed
qed

lemma stage_icons_summary:
  assumes "stage_icons en args w = (r, w')"
  shows "\<exists>evs hs. trace w' = trace w @ Tick ''icons'' # evs \<and> list_all quiet evs
     \<and> heap w' = heap w @ hs
     \<and> (\<forall>res. r = Done (None, res) \<longrightarrow>
          (\<exists>a c. res = [AOpts a] \<and> is_object w' a \<and> IconBuildCall c \<in> set evs
                \<and> obj_at w' a = snd (iconBuild en c)))"
proof (cases "\<exists>opts. args = [AOpts opts] \<and> is_object w opts")
  case True
  then obtain opts where args: "args = [AOpts opts]" "is_object w opts" by blast
  let ?c = "obj_at w opts"
  from assms args have "trace w' = trace w @ Tick ''icons'' # [IconBuildCall ?c]"
    "heap w' = heap w @ [snd (iconBuild en ?c)]" "r = Done (None, [AOpts (length (heap w))])"
    by (auto simp add: stage_icons_def Let_def alloc_def split: prod.splits)
  then show ?thesis
    by (intro exI [of _ "[IconBuildCall ?c]"] exI [of _ "[snd (iconBuild en ?c)]"])
      (simp add: is_object_def obj_at_def)
next
  case False
  with assms have "trace w' = trace w @ Tick ''icons'' # []" "heap w' = heap w @ []"
    "\<forall>res. r \<noteq> Done (None, res)"
    by (auto simp add: stage_icons_def Let_def bad_args_def split: list.splits arg.splits)
  then show ?thesis by (intro exI [of _ "[]"]) simp
qed

lemma stage_copying_summary:
  assumes "stage_copying en args w = (r, w')"
  shows "\<exists>evs hs. trace w' = trace w @ Tick ''copying'' # evs \<and> list_all quiet evs
     \<and> heap w' = heap w @ hs
     \<and> (\<forall>res. r = Done (None, res) \<longrightarrow> (\<exists>a. res = [AOpts a] \<and> is_object w' a))"
proof (cases "\<exists>opts. args = [AOpts opts] \<and> is_object w opts")
  case True
  then obtain opts where args: "args = [AOpts opts]" "is_object w opts" by blast
  let ?ob = "obj_at w opts"
  let ?w2 = "emit (ConsoleLog ''PACKAGE NAME 2:'' (get_prop ?ob ''name''))
               (emit (Tick ''copying'') w)"
  obtain b w3 where b: "buildApp en (get_prop ?ob ''dir'') (tmpPath en) ?ob ?w2 = (b, w3)"
    by (cases "buildApp en (get_prop ?ob ''dir'') (tmpPath en) ?ob ?w2")
  from quietly_buildApp [of ?w2 en "get_prop ?ob ''dir''" "tmpPath en" ?ob] b
  obtain evs where w3: "heap w3 = heap w" "list_all quiet evs"
    "trace w3 = trace w @ Tick ''copying'' #
        (ConsoleLog ''PACKAGE NAME 2:'' (get_prop ?ob ''name'') # evs)"
    by (auto simp add: quietly_def)
  let ?evs = "ConsoleLog ''PACKAGE NAME 2:'' (get_prop ?ob ''name'') # evs"
  have q: "list_all quiet ?evs" using w3 by simp
  show ?thesis
  proof (cases "b = Done None")
    case True
    let ?new = "AList.update ''dir'' (JStr (tmpPath en)) (obj_at w3 opts)"
    from True assms args b w3 have "trace w' = trace w @ Tick ''copying'' # ?evs"
      "heap w' = heap w @ [?new]" "r = Done (None, [AOpts (length (heap w))])"
      by (auto simp add: stage_copying_def Let_def alloc_def)
    with q show ?thesis
      by (intro exI [of _ ?evs] exI [of _ "[?new]"]) (simp add: is_object_def)
  next
    case False
    with assms args b w3 have "trace w' = trace w @ Tick ''copying'' # ?evs"
      "heap w' = heap w @ []" "\<forall>res. r \<noteq> Done (None, res)"
      by (auto simp add: stage_copying_def Let_def split: outcome.splits option.splits)
    with q show ?thesis by (intro exI [of _ ?evs] exI [of _ "[]"]) simp
  qed
next
  case False
  with assms have "trace w' = trace w @ Tick ''copying'' # []" "heap w' = heap w @ []"
    "\<forall>res. r \<noteq> Done (None, res)"
    by (auto simp add: stage_copying_def Let_def bad_args_def split: list.splits arg.splits)
  then show ?thesis by (intro exI [of _ "[]"]) simp
qed

lemma getAppPath_cases:
  "getAppPath [] w = (JNull, w)"
  "getAppPath [p] w = (JStr p, w)"
  "getAppPath (p # q # ps) w =
     (JStr p, emit (WarnPaths
        ''Warning: This should not be happening, packaged app path contains more than one element:''
        (p # q # ps)) w)"
  by (simp_all add: getAppPath_def)

lemma stage_finalizing_empty:
  "stage_finalizing en [AOpts opts, APaths []] w = (Done (None, []), emit (Tick ''finalizing'') w)"
  by (simp add: stage_finalizing_def getAppPath_cases)

lemma maybeCopyIcons_summary:
  assumes "maybeCopyIcons en options appPath w = (r, w')"
  shows "heap w' = heap w \<and> (\<exists>evs. trace w' = trace w @ Enter ''maybeCopyIcons'' # evs
      \<and> (\<forall>l. Tick l \<notin> set evs) \<and> (\<forall>c. PackagerCall c \<notin> set evs))"
  using assms
  by (auto simp add: maybeCopyIcons_def Let_def split: if_splits jsval.splits)

lemma getAppPath_summary:
  assumes "getAppPath ps w = (r, w')"
  shows "heap w' = heap w \<and> (\<exists>evs. trace w' = trace w @ evs \<and> list_all quiet evs)"
  using assms by (auto simp add: getAppPath_def Let_def split: if_splits)

lemma stage_finalizing_summary:
  assumes "stage_finalizing en args w = (r, w')"
  shows "heap w' = heap w \<and> (\<exists>evs. trace w' = trace w @ Tick ''finalizing'' # evs
      \<and> (\<forall>l. Tick l \<notin> set evs) \<and> (\<forall>c. PackagerCall c \<notin> set evs))"
proof -
  let ?w1 = "emit (Tick ''finalizing'') w"
  have triv: "heap ?w1 = heap w \<and> (\<exists>evs. trace ?w1 = trace w @ Tick ''finalizing'' # evs
      \<and> (\<forall>l. Tick l \<notin> set evs) \<and> (\<forall>c. PackagerCall c \<notin> set evs))"
    by simp
  show ?thesis
  proof (cases "\<exists>opts ps. args = [AOpts opts, APaths ps]")
    case False
    with assms have "w' = ?w1"
      by (auto simp add: stage_finalizing_def Let_def bad_args_def
          split: list.splits arg.splits)
    with triv show ?thesis by simp
  next
    case True
    then obtain opts ps where args: "args = [AOpts opts, APaths ps]" by blast
    obtain appPath w2 where g: "getAppPath ps ?w1 = (appPath, w2)"
      by (cases "getAppPath ps ?w1")
    from getAppPath_summary [OF g] obtain evs2 where
      w2: "heap w2 = heap w" "trace w2 = trace w @ Tick ''finalizing'' # evs2"
        "list_all quiet evs2"
      by auto
    have base: "heap w2 = heap w \<and> (\<exists>evs. trace w2 = trace w @ Tick ''finalizing'' # evs
      \<and> (\<forall>l. Tick l \<notin> set evs) \<and> (\<forall>c. PackagerCall c \<notin> set evs))"
      using w2 quiet_no_tick [OF w2(3)] quiet_no_packager [OF w2(3)] by simp
    show ?thesis
    proof (cases "\<exists>p. appPath = JStr p \<and> p \<noteq> [] \<and> is_object w2 opts")
      case False
      with assms args g have "w' = w2"
        by (auto simp add: stage_finalizing_def Let_def bad_args_def
            split: jsval.splits if_splits)
      with base show ?thesis by simp
    next
      case True
      then obtain p where p: "appPath = JStr p" "p \<noteq> []" "is_object w2 opts" by blast
      obtain m w3 where m: "maybeCopyIcons en (obj_at w2 opts) p w2 = (m, w3)"
        by (cases "maybeCopyIcons en (obj_at w2 opts) p w2")
      from assms args g p m have "w' = w3"
        by (auto simp add: stage_finalizing_def Let_def split: outcome.splits)
      with maybeCopyIcons_summary [OF m] w2 quiet_no_tick [OF w2(3)]
        quiet_no_packager [OF w2(3)]
      show ?thesis by auto
    qed
  qed
qed

section \<open>Progress ticks\<close>

lemma ticks_of_append: "ticks_of (xs @ ys) = ticks_of xs @ ticks_of ys"
  by (induction xs rule: ticks_of.induct) auto

lemma ticks_of_none: "(\<forall>l. Tick l \<notin> set evs) \<Longrightarrow> ticks_of evs = []"
  by (induction evs rule: ticks_of.induct) auto

lemma ticks_of_segments:
  assumes "\<forall>i < length segs. \<exists>evs. segs ! i = Tick (ls ! i) # evs \<and> (\<forall>l. Tick l \<notin> set evs)"
    and "length segs \<le> length ls"
  shows "ticks_of (concat segs) = take (length segs) ls"
  using assms
proof (induction segs arbitrary: ls)
  case Nil
  then show ?case by simp
next
  case (Cons seg segs)
  from Cons.prems(2) obtain l ls' where ls: "ls = l # ls'" by (cases ls) auto
  from Cons.prems(1) [rule_format, of 0] ls obtain evs where
    seg: "seg = Tick l # evs" "\<forall>l. Tick l \<notin> set evs" by auto
  have "\<forall>i < length segs. \<exists>evs. segs ! i = Tick (ls' ! i) # evs \<and> (\<forall>l. Tick l \<notin> set evs)"
    using Cons.prems(1) ls by (auto dest: spec [of _ "Suc _"])
  from Cons.IH [OF this] Cons.prems(2) ls have "ticks_of (concat segs) = take (length segs) ls'"
    by simp
  with seg ls show ?case by (simp add: ticks_of_append ticks_of_none)
qed

lemma started_le: "started ts args w \<le> length ts"
  by (induction ts arbitrary: args w)
    (auto split: prod.splits outcome.splits option.splits)

lemma started_pos: "ts \<noteq> [] \<Longrightarrow> 0 < started ts args w"
  by (cases ts) (auto split: prod.splits outcome.splits option.splits)

lemma waterfall_segments:
  assumes "list_all2 tick_first ls ts"
  shows "\<exists>segs. length segs = started ts args w
     \<and> trace (snd (waterfall ts args w)) = trace w @ concat segs
     \<and> (\<forall>i < length segs. \<exists>evs. segs ! i = Tick (ls ! i) # evs \<and> (\<forall>l. Tick l \<notin> set evs))"
  using assms
proof (induction ls ts arbitrary: args w rule: list_all2_induct)
  case Nil
  then show ?case by simp
next
  case (Cons l ls t ts)
  obtain r w1 where t: "t args w = (r, w1)" by (cases "t args w")
  from Cons.hyps(1) t obtain evs where
    evs: "trace w1 = trace w @ Tick l # evs" "\<forall>l'. Tick l' \<notin> set evs"
    unfolding tick_first_def by (metis snd_conv)
  show ?case
  proof (cases "\<exists>res. r = Done (None, res)")
    case True
    then obtain res where r: "r = Done (None, res)" by blast
    from Cons.IH [of res w1] obtain segs where
      segs: "length segs = started ts res w1"
        "trace (snd (waterfall ts res w1)) = trace w1 @ concat segs"
        "\<forall>i < length segs. \<exists>evs. segs ! i = Tick (ls ! i) # evs \<and> (\<forall>l. Tick l \<notin> set evs)"
      by blast
    let ?segs = "(Tick l # evs) # segs"
    have "length ?segs = started (t # ts) args w" using t r segs by simp
    moreover have "trace (snd (waterfall (t # ts) args w)) = trace w @ concat ?segs"
      using t r segs evs by simp
    moreover have "\<forall>i < length ?segs. \<exists>evs. ?segs ! i = Tick ((l # ls) ! i) # evs
         \<and> (\<forall>l. Tick l \<notin> set evs)"
      using segs(3) evs(2) by (auto simp add: nth_Cons split: nat.splits)
    ultimately show ?thesis by blast
  next
    case False
    let ?segs = "[Tick l # evs]"
    from False t have "started (t # ts) args w = 1" "waterfall (t # ts) args w = (r, w1)"
      by (auto split: outcome.splits option.splits)
    with evs have "length ?segs = started (t # ts) args w"
      "trace (snd (waterfall (t # ts) args w)) = trace w @ concat ?segs"
      "\<forall>i < length ?segs. \<exists>evs. ?segs ! i = Tick ((l # ls) ! i) # evs
         \<and> (\<forall>l. Tick l \<notin> set evs)"
      by simp_all
    then show ?thesis by blast
  qed
qed

lemma stages_tick_first: "list_all2 tick_first stage_labels (stages en options)"
proof -
  have 1: "tick_first ''inferring'' (stage_inferring en options)"
    unfolding tick_first_def
  proof (intro allI)
    fix args w
    obtain r w' where "stage_inferring en options args w = (r, w')"
      by (cases "stage_inferring en options args w")
    from stage_inferring_summary [OF this] this quiet_no_tick
    show "\<exists>evs. trace (snd (stage_inferring en options args w)) = trace w @ Tick ''inferring'' # evs
        \<and> (\<forall>l'. Tick l' \<notin> set evs)"
      by fastforce
  qed
  have 2: "tick_first ''copying'' (stage_copying en)"
    unfolding tick_first_def
  proof (intro allI)
    fix args w
    obtain r w' where "stage_copying en args w = (r, w')"
      by (cases "stage_copying en args w")
    from stage_copying_summary [OF this] this quiet_no_tick
    show "\<exists>evs. trace (snd (stage_copying en args w)) = trace w @ Tick ''copying'' # evs
        \<and> (\<forall>l'. Tick l' \<notin> set evs)"
      by fastforce
  qed
  have 3: "tick_first ''icons'' (stage_icons en)"
    unfolding tick_first_def
  proof (intro allI)
    fix args w
    obtain r w' where "stage_icons en args w = (r, w')"
      by (cases "stage_icons en args w")
    from stage_icons_summary [OF this] this quiet_no_tick
    show "\<exists>evs. trace (snd (stage_icons en args w)) = trace w @ Tick ''icons'' # evs
        \<and> (\<forall>l'. Tick l' \<notin> set evs)"
      by fastforce
  qed
  have 4: "tick_first ''packaging'' (stage_packaging en)"
    unfolding tick_first_def
  proof (intro allI)
    fix args w
    obtain r w' where s: "stage_packaging en args w = (r, w')"
      by (cases "stage_packaging en args w")
    from stage_packaging_summary [OF s]
    have "\<exists>evs. trace w' = trace w @ Tick ''packaging'' # evs \<and> (\<forall>l'. Tick l' \<notin> set evs)"
      by (elim disjE exE conjE) auto
    with s show "\<exists>evs. trace (snd (stage_packaging en args w)) = trace w @ Tick ''packaging'' # evs
        \<and> (\<forall>l'. Tick l' \<notin> set evs)"
      by simp
  qed
  have 5: "tick_first ''finalizing'' (stage_finalizing en)"
    unfolding tick_first_def
  proof (intro allI)
    fix args w
    obtain r w' where s: "stage_finalizing en args w = (r, w')"
      by (cases "stage_finalizing en args w")
    from stage_finalizing_summary [OF s] s
    show "\<exists>evs. trace (snd (stage_finalizing en args w)) = trace w @ Tick ''finalizing'' # evs
        \<and> (\<forall>l'. Tick l' \<notin> set evs)"
      by auto
  qed
  from 1 2 3 4 5 show ?thesis by (simp add: stage_labels_def stages_def)
qed

lemma buildMain_extends_trace:
  assumes "buildMain en inpOptions w = (r, w')"
  shows "trace w' = trace w @ new_events w w'"
proof -
  let ?ob = "if is_object w inpOptions then obj_at w inpOptions else []"
  let ?options = "length (heap w)"
  let ?w0 = "w\<lparr>heap := heap w @ [?ob]\<rparr>"
  obtain r5 w5 where wf: "waterfall (stages en ?options) [] ?w0 = (r5, w5)"
    by (cases "waterfall (stages en ?options) [] ?w0")
  from waterfall_segments [OF stages_tick_first, of en ?options "[]" ?w0] wf
  obtain segs where "trace w5 = trace w @ concat segs" by auto
  moreover from assms wf have "final_callback (r5, w5) = (r, w')"
    by (simp add: buildMain_def alloc_def)
  then have "trace w' = trace w5 @ (case r of Done c \<Rightarrow> [Playback] | Uncaught e \<Rightarrow> [])"
    by (cases r5) (auto simp add: final_callback_def Let_def)
  ultimately show ?thesis by (simp add: new_events_def)
qed

text \<open>
  C8. What a run of \<^verbatim>\<open>buildMain\<close> adds to the trace is one segment for each stage that was
  started, in the order of the stages, followed by the playback when the final callback is
  called. A stage is started only when every stage before it called back without an error
  (\<open>stages_started\<close> counts them: at least one, at most five). The segment of a stage
  begins with the tick of that stage and holds no other tick. So the ticks of the run are
  the first labels of \<^verbatim>\<open>inferring, copying, icons, packaging, finalizing\<close>, one for each
  stage started, and none for a stage that never starts.
\<close>

theorem ticks_follow_the_stages:
  assumes "buildMain en inpOptions w = (r, w')"
  shows "\<exists>segs. length segs = stages_started en inpOptions w
     \<and> 1 \<le> length segs \<and> length segs \<le> 5
     \<and> new_events w w' = concat segs @ (case r of Done c \<Rightarrow> [Playback] | Uncaught e \<Rightarrow> [])
     \<and> (\<forall>i < length segs. \<exists>evs. segs ! i = Tick (stage_labels ! i) # evs
            \<and> (\<forall>l. Tick l \<notin> set evs))
     \<and> ticks_of (new_events w w') = take (length segs) stage_labels"
proof -
  let ?ob = "if is_object w inpOptions then obj_at w inpOptions else []"
  let ?options = "length (heap w)"
  let ?w0 = "w\<lparr>heap := heap w @ [?ob]\<rparr>"
  obtain r5 w5 where wf: "waterfall (stages en ?options) [] ?w0 = (r5, w5)"
    by (cases "waterfall (stages en ?options) [] ?w0")
  from waterfall_segments [OF stages_tick_first, of en ?options "[]" ?w0] wf
  obtain segs where segs: "length segs = started (stages en ?options) [] ?w0"
    "trace w5 = trace w @ concat segs"
    "\<forall>i < length segs. \<exists>evs. segs ! i = Tick (stage_labels ! i) # evs
        \<and> (\<forall>l. Tick l \<notin> set evs)"
    by auto
  have n: "length segs = stages_started en inpOptions w"
    using segs(1) by (simp add: stages_started_def alloc_def)
  have bounds: "1 \<le> length segs" "length segs \<le> 5"
    using started_pos [of "stages en ?options" "[]" ?w0]
      started_le [of "stages en ?options" "[]" ?w0] segs(1)
    by (simp_all add: stages_def)
  let ?tail = "case r of Done c \<Rightarrow> [Playback] | Uncaught e \<Rightarrow> []"
  from assms wf have fin: "final_callback (r5, w5) = (r, w')"
    by (simp add: buildMain_def alloc_def)
  then have tr: "trace w' = trace w5 @ ?tail"
    by (cases r5) (auto simp add: final_callback_def Let_def)
  with segs(2) have new: "new_events w w' = concat segs @ ?tail"
    by (simp add: new_events_def)
  have "ticks_of ?tail = []" by (cases r) simp_all
  with ticks_of_segments [OF segs(3)] bounds(2) new
  have "ticks_of (new_events w w') = take (length segs) stage_labels"
    by (simp add: ticks_of_append stage_labels_def)
  with n bounds new segs(3) show ?thesis by blast
qed

lemma stages_started_examples:
  "stages_started readonly_host 0 (start linux_options) = 2"
  "stages_started linux_host 0 (start linux_options) = 5"
  by (simp_all add: stages_started_def started.simps run_defs readonly_host_def
      missing_host_def)

theorem ticks_follow_the_stages_witness:
  "ticks_of (new_events (start linux_options)
      (snd (buildMain readonly_host 0 (start linux_options)))) = [''inferring'', ''copying'']
   \<and> ticks_of (new_events (start linux_options)
      (snd (buildMain linux_host 0 (start linux_options))))
       = [''inferring'', ''copying'', ''icons'', ''packaging'', ''finalizing'']"
proof -
  have "ticks_of (new_events (start linux_options) (snd (buildMain en 0 (start linux_options))))
      = take (stages_started en 0 (start linux_options)) stage_labels" for en
    using ticks_follow_the_stages [of en 0 "start linux_options"
        "fst (buildMain en 0 (start linux_options))"
        "snd (buildMain en 0 (start linux_options))"]
    by auto
  then show ?thesis by (simp add: stages_started_examples stage_labels_def)
qed

section \<open>Runs that reach the packaging engine\<close>

lemma quiet_calm: "list_all quiet evs \<Longrightarrow> list_all calm evs"
  by (induction evs) (auto elim: quiet.elims)

lemma calm_Warn: "list_all calm (map Warn ws)"
  by (induction ws) auto

lemma calm_no_packager: "list_all calm evs \<Longrightarrow> PackagerCall c \<notin> set evs"
  by (auto simp add: list_all_iff)

lemma calm_no_enter: "list_all calm evs \<Longrightarrow> Enter f \<notin> set evs"
  by (auto simp add: list_all_iff)

lemma waterfall_stop:
  "t args w = (r, w1) \<Longrightarrow> \<forall>res. r \<noteq> Done (None, res) \<Longrightarrow>
   waterfall (t # ts) args w = (r, w1)"
  by (auto split: outcome.splits option.splits)

lemma waterfall_go:
  "t args w = (Done (None, res), w1) \<Longrightarrow> waterfall (t # ts) args w = waterfall ts res w1"
  by simp

lemma waterfall_single: "waterfall [t] args w = t args w"
  by (cases "t args w") (auto split: outcome.splits option.splits)

lemma waterfall_append:
  "waterfall (ts @ us) args w =
     (case waterfall ts args w of
        (Uncaught e, w1) \<Rightarrow> (Uncaught e, w1)
      | (Done (Some e, res), w1) \<Rightarrow> (Done (Some e, res), w1)
      | (Done (None, res), w1) \<Rightarrow> waterfall us res w1)"
  by (induction ts arbitrary: args w) (auto split: prod.splits outcome.splits option.splits)

lemma front_stages:
  assumes "waterfall [stage_inferring en options, stage_copying en, stage_icons en] [] w0
             = (r3, w3)"
  shows "\<exists>evs hs. trace w3 = trace w0 @ evs \<and> list_all calm evs \<and> heap w3 = heap w0 @ hs
     \<and> (\<forall>res. r3 = Done (None, res) \<longrightarrow>
          (\<exists>a c. res = [AOpts a] \<and> is_object w3 a \<and> IconBuildCall c \<in> set evs
                \<and> obj_at w3 a = snd (iconBuild en c)))"
proof -
  obtain r1 w1 where s1: "stage_inferring en options [] w0 = (r1, w1)"
    by (cases "stage_inferring en options [] w0")
  from stage_inferring_summary [OF s1] obtain evs1 hs1 where
    1: "trace w1 = trace w0 @ Tick ''inferring'' # evs1" "list_all quiet evs1"
       "heap w1 = heap w0 @ hs1"
       "\<forall>res. r1 = Done (None, res) \<longrightarrow> (\<exists>a. res = [AOpts a] \<and> is_object w1 a)"
    by blast
  have c1: "list_all calm (Tick ''inferring'' # evs1)" using quiet_calm [OF 1(2)] by simp
  show ?thesis
  proof (cases "\<exists>res. r1 = Done (None, res)")
    case False
    with waterfall_stop [of "stage_inferring en options" "[]" w0 r1 w1, OF s1] assms have "r3 = r1" "w3 = w1" by auto
    with False 1 c1 show ?thesis by blast
  next
    case True
    then obtain res1 where r1: "r1 = Done (None, res1)" by blast
    obtain r2 w2 where s2: "stage_copying en res1 w1 = (r2, w2)"
      by (cases "stage_copying en res1 w1")
    from stage_copying_summary [OF s2] obtain evs2 hs2 where
      2: "trace w2 = trace w1 @ Tick ''copying'' # evs2" "list_all quiet evs2"
         "heap w2 = heap w1 @ hs2"
         "\<forall>res. r2 = Done (None, res) \<longrightarrow> (\<exists>a. res = [AOpts a] \<and> is_object w2 a)"
      by blast
    let ?e2 = "Tick ''inferring'' # evs1 @ Tick ''copying'' # evs2"
    have c2: "list_all calm ?e2" using c1 quiet_calm [OF 2(2)] by simp
    have t2: "trace w2 = trace w0 @ ?e2" "heap w2 = heap w0 @ (hs1 @ hs2)"
      using 1 2 by simp_all
    from s1 r1 assms have rest: "waterfall [stage_copying en, stage_icons en] res1 w1 = (r3, w3)"
      by simp
    show ?thesis
    proof (cases "\<exists>res. r2 = Done (None, res)")
      case False
      with waterfall_stop [of "stage_copying en" res1 w1 r2 w2, OF s2] rest have "r3 = r2" "w3 = w2" by auto
      with False t2 c2 show ?thesis by blast
    next
      case True
      then obtain res2 where r2: "r2 = Done (None, res2)" by blast
      from s2 r2 rest have "waterfall [stage_icons en] res2 w2 = (r3, w3)"
        by simp
      then have s3: "stage_icons en res2 w2 = (r3, w3)"
        by (simp only: waterfall_single)
      from stage_icons_summary [OF s3] obtain evs3 hs3 where
        3: "trace w3 = trace w2 @ Tick ''icons'' # evs3" "list_all quiet evs3"
           "heap w3 = heap w2 @ hs3"
           "\<forall>res. r3 = Done (None, res) \<longrightarrow>
              (\<exists>a c. res = [AOpts a] \<and> is_object w3 a \<and> IconBuildCall c \<in> set evs3
                \<and> obj_at w3 a = snd (iconBuild en c))"
        by blast
      let ?e3 = "?e2 @ Tick ''icons'' # evs3"
      have "trace w3 = trace w0 @ ?e3" "list_all calm ?e3" "heap w3 = heap w0 @ (hs1 @ hs2 @ hs3)"
        using t2 3 c2 quiet_calm [OF 3(2)] by simp_all
      moreover have "\<forall>res. r3 = Done (None, res) \<longrightarrow>
              (\<exists>a c. res = [AOpts a] \<and> is_object w3 a \<and> IconBuildCall c \<in> set ?e3
                \<and> obj_at w3 a = snd (iconBuild en c))"
        using 3(4) by fastforce
      ultimately show ?thesis by blast
    qed
  qed
qed

lemma final_callback_trace:
  assumes "final_callback (rr, ww) = (r, w')"
  shows "heap w' = heap ww
     \<and> trace w' = trace ww @ (case r of Done c \<Rightarrow> [Playback] | Uncaught e \<Rightarrow> [])"
  using assms by (cases rr) (auto simp add: final_callback_def Let_def)

lemma tail_no_packager:
  "PackagerCall c \<notin> set (case r of Done x \<Rightarrow> [Playback] | Uncaught e \<Rightarrow> [])"
  by (cases r) simp_all

lemma run_reaches_packager:
  assumes run: "buildMain en inpOptions w = (r, w')"
    and called: "PackagerCall cfg \<in> set (new_events w w')"
  shows "\<exists>opts c pre w4. trace w4 = trace w @ pre @ [Override, PackagerCall cfg, Restore]
      \<and> list_all calm pre \<and> IconBuildCall c \<in> set pre
      \<and> is_object w4 opts \<and> obj_at w4 opts = snd (iconBuild en c)
      \<and> final_callback (case packager en cfg of
           Inl e \<Rightarrow> (Done (Some e, [AOpts opts]), w4)
         | Inr ps \<Rightarrow> stage_finalizing en [AOpts opts, APaths ps] w4) = (r, w')"
proof -
  let ?ob = "if is_object w inpOptions then obj_at w inpOptions else []"
  let ?options = "length (heap w)"
  let ?w0 = "w\<lparr>heap := heap w @ [?ob]\<rparr>"
  let ?front = "[stage_inferring en ?options, stage_copying en, stage_icons en]"
  let ?rear = "[stage_packaging en, stage_finalizing en]"
  let ?tail = "case r of Done c \<Rightarrow> [Playback] | Uncaught e \<Rightarrow> []"
  have split: "stages en ?options = ?front @ ?rear" by (simp add: stages_def)
  from run have fin: "final_callback (waterfall (stages en ?options) [] ?w0) = (r, w')"
    by (simp add: buildMain_def alloc_def)
  obtain r3 w3 where f: "waterfall ?front [] ?w0 = (r3, w3)"
    by (cases "waterfall ?front [] ?w0")
  from front_stages [OF f] obtain evs hs where
    3: "trace w3 = trace w @ evs" "list_all calm evs" "heap w3 = heap ?w0 @ hs"
       "\<forall>res. r3 = Done (None, res) \<longrightarrow>
          (\<exists>a c. res = [AOpts a] \<and> is_object w3 a \<and> IconBuildCall c \<in> set evs
                \<and> obj_at w3 a = snd (iconBuild en c))"
    by auto
  show ?thesis
  proof (cases "\<exists>res. r3 = Done (None, res)")
    case False
    with f have "waterfall (stages en ?options) [] ?w0 = (r3, w3)"
      unfolding split waterfall_append by (auto split: outcome.splits option.splits)
    with fin final_callback_trace [of r3 w3 r w'] 3 have "new_events w w' = evs @ ?tail"
      by (simp add: new_events_def)
    with called calm_no_packager [OF 3(2)] tail_no_packager [of cfg r] show ?thesis by simp
  next
    case True
    with 3(4) obtain a c where
      r3: "r3 = Done (None, [AOpts a])" and a: "is_object w3 a" "IconBuildCall c \<in> set evs"
        "obj_at w3 a = snd (iconBuild en c)"
      by blast
    from f r3 have wf: "waterfall (stages en ?options) [] ?w0 = waterfall ?rear [AOpts a] w3"
      unfolding split waterfall_append by simp
    obtain r4 w4 where s4: "stage_packaging en [AOpts a] w3 = (r4, w4)"
      by (cases "stage_packaging en [AOpts a] w3")
    from stage_packaging_summary [OF s4]
    consider (crash) ws e where "r4 = Uncaught e"
        "trace w4 = trace w3 @ Tick ''packaging'' # map Warn ws"
      | (call) ws cfg' hs' where
        "trace w4 = trace w3 @ Tick ''packaging'' # map Warn ws
                         @ [Override, PackagerCall cfg', Restore]"
        "heap w4 = heap w3 @ hs'"
        "r4 = (case packager en cfg' of
                  Inr appPathArray \<Rightarrow> Done (None, [AOpts a, APaths appPathArray])
                | Inl error \<Rightarrow> Done (Some error, [AOpts a]))"
      by auto
    then show ?thesis
    proof cases
      case crash
      with s4 wf have "waterfall (stages en ?options) [] ?w0 = (r4, w4)" by simp
      with fin final_callback_trace [of r4 w4 r w'] 3 crash
      have "new_events w w' = (evs @ Tick ''packaging'' # map Warn ws) @ ?tail"
        by (simp add: new_events_def)
      moreover have "list_all calm (evs @ Tick ''packaging'' # map Warn ws)"
        using 3(2) calm_Warn by simp
      ultimately show ?thesis
        using called calm_no_packager [of "evs @ Tick ''packaging'' # map Warn ws" cfg]
          tail_no_packager [of cfg r] by simp
    next
      case call
      let ?pre = "evs @ Tick ''packaging'' # map Warn ws"
      have pre: "list_all calm ?pre" "IconBuildCall c \<in> set ?pre"
        using 3(2) calm_Warn a(2) by simp_all
      have t4: "trace w4 = trace w @ ?pre @ [Override, PackagerCall cfg', Restore]"
        using call(1) 3(1) by simp
      have ob4: "is_object w4 a" "obj_at w4 a = snd (iconBuild en c)"
        using a call(2) by (simp_all add: is_object_def obj_at_def nth_append)
      let ?next = "case packager en cfg' of
           Inl e \<Rightarrow> (Done (Some e, [AOpts a]), w4)
         | Inr ps \<Rightarrow> stage_finalizing en [AOpts a, APaths ps] w4"
      have nxt: "waterfall ?rear [AOpts a] w3 = ?next"
      proof (cases "packager en cfg'")
        case (Inl e)
        with s4 call(3) show ?thesis by simp
      next
        case (Inr ps)
        with s4 call(3) have "stage_packaging en [AOpts a] w3
            = (Done (None, [AOpts a, APaths ps]), w4)" by simp
        from waterfall_go [of "stage_packaging en", OF this, of "[stage_finalizing en]"] Inr
        show ?thesis by (simp only: waterfall_single sum.case)
      qed
      with wf fin have fin': "final_callback ?next = (r, w')" by simp
      have "\<exists>post. new_events w w' = ?pre @ [Override, PackagerCall cfg', Restore] @ post
          \<and> (\<forall>x. PackagerCall x \<notin> set post)"
      proof (cases "packager en cfg'")
        case (Inl e)
        with fin' final_callback_trace [of "Done (Some e, [AOpts a])" w4 r w'] t4
        have "new_events w w' = ?pre @ [Override, PackagerCall cfg', Restore] @ ?tail"
          by (simp add: new_events_def)
        with tail_no_packager [of _ r] show ?thesis by blast
      next
        case (Inr ps)
        obtain r5 w5 where s5: "stage_finalizing en [AOpts a, APaths ps] w4 = (r5, w5)"
          by (cases "stage_finalizing en [AOpts a, APaths ps] w4")
        from stage_finalizing_summary [OF s5] obtain evs5 where
          5: "trace w5 = trace w4 @ Tick ''finalizing'' # evs5"
             "\<forall>x. PackagerCall x \<notin> set evs5"
          by blast
        from Inr s5 fin' final_callback_trace [of r5 w5 r w'] t4 5(1)
        have "new_events w w' = ?pre @ [Override, PackagerCall cfg', Restore]
            @ (Tick ''finalizing'' # evs5 @ ?tail)"
          by (simp add: new_events_def)
        moreover have "\<forall>x. PackagerCall x \<notin> set (Tick ''finalizing'' # evs5 @ ?tail)"
          using 5(2) tail_no_packager [of _ r] by simp
        ultimately show ?thesis by blast
      qed
      then obtain post where "new_events w w' = ?pre @ [Override, PackagerCall cfg', Restore] @ post"
        "\<forall>x. PackagerCall x \<notin> set post" by blast
      with called calm_no_packager [OF pre(1), of cfg] have "cfg' = cfg"
        by (simp only: set_append Un_iff) auto
      with t4 pre ob4 fin' show ?thesis by blast
    qed
  qed
qed

text \<open>
  C5. In a run in which the packaging engine was called and returned an empty list of
  paths, the final callback gets no error and no bundle path (both arguments are
  \<^verbatim>\<open>undefined\<close>; the model writes \<open>None\<close>), \<^verbatim>\<open>maybeCopyIcons\<close> is not entered, and after
  the engine's call the run only restores the console, ticks \<^verbatim>\<open>finalizing\<close> and plays the
  captured output back.
\<close>

theorem empty_packager_result_gives_no_path:
  assumes "buildMain en inpOptions w = (r, w')"
    and "PackagerCall cfg \<in> set (new_events w w')"
    and "packager en cfg = Inr []"
  shows "r = Done (None, None)
     \<and> Enter ''maybeCopyIcons'' \<notin> set (new_events w w')
     \<and> (\<exists>pre. new_events w w' =
           pre @ [Override, PackagerCall cfg, Restore, Tick ''finalizing'', Playback])"
proof -
  from run_reaches_packager [OF assms(1,2)] assms(3) obtain opts pre w4 where
    t4: "trace w4 = trace w @ pre @ [Override, PackagerCall cfg, Restore]"
    and pre: "list_all calm pre"
    and fin: "final_callback (stage_finalizing en [AOpts opts, APaths []] w4) = (r, w')"
    by auto
  from fin have r: "r = Done (None, None)"
    and w': "w' = emit Playback (emit (Tick ''finalizing'') w4)"
    by (simp_all add: stage_finalizing_empty final_callback_def)
  from w' t4 have new: "new_events w w' =
      pre @ [Override, PackagerCall cfg, Restore, Tick ''finalizing'', Playback]"
    by (simp add: new_events_def)
  with calm_no_enter [OF pre] have "Enter ''maybeCopyIcons'' \<notin> set (new_events w w')"
    by simp
  with r new show ?thesis by blast
qed

lemma packager_empty_run:
  "PackagerCall staged_linux_options
     \<in> set (new_events (start linux_options)
           (snd (buildMain packager_empty_host 0 (start linux_options))))"
  "packager packager_empty_host staged_linux_options = Inr []"
  by (simp_all add: run_defs packager_empty_host_def)

theorem empty_packager_result_gives_no_path_witness:
  "PackagerCall staged_linux_options
     \<in> set (new_events (start linux_options)
           (snd (buildMain packager_empty_host 0 (start linux_options))))
   \<and> packager packager_empty_host staged_linux_options = Inr []
   \<and> fst (buildMain packager_empty_host 0 (start linux_options)) = Done (None, None)
   \<and> Enter ''maybeCopyIcons''
     \<notin> set (new_events (start linux_options)
           (snd (buildMain packager_empty_host 0 (start linux_options))))"
  using empty_packager_result_gives_no_path
    [OF prod.collapse [symmetric] packager_empty_run] packager_empty_run
  by blast

text \<open>
  C9. In a run in which the packaging engine was called and its promise rejected with an
  error, the final callback gets that error and, as its second argument, an options
  object: the object that the icons stage handed to the packaging stage, whose content is
  still what the icon build returned (not the sanitized copy, not a path, not
  \<^verbatim>\<open>undefined\<close>).
\<close>

theorem packager_rejection_passes_options_as_path:
  assumes "buildMain en inpOptions w = (r, w')"
    and "PackagerCall cfg \<in> set (new_events w w')"
    and "packager en cfg = Inl e"
  shows "\<exists>opts c. r = Done (Some e, Some (AOpts opts))
     \<and> is_object w' opts
     \<and> IconBuildCall c \<in> set (new_events w w')
     \<and> obj_at w' opts = snd (iconBuild en c)
     \<and> (\<exists>pre. new_events w w' = pre @ [Override, PackagerCall cfg, Restore, Playback])"
proof -
  from run_reaches_packager [OF assms(1,2)] assms(3) obtain opts c pre w4 where
    t4: "trace w4 = trace w @ pre @ [Override, PackagerCall cfg, Restore]"
    and c: "IconBuildCall c \<in> set pre"
    and ob: "is_object w4 opts" "obj_at w4 opts = snd (iconBuild en c)"
    and fin: "final_callback (Done (Some e, [AOpts opts]), w4) = (r, w')"
    by auto
  from fin have r: "r = Done (Some e, Some (AOpts opts))" and w': "w' = emit Playback w4"
    by (simp_all add: final_callback_def)
  from w' t4 have new: "new_events w w' = pre @ [Override, PackagerCall cfg, Restore, Playback]"
    by (simp add: new_events_def)
  with c have "IconBuildCall c \<in> set (new_events w w')" by simp
  with r w' ob new show ?thesis by auto
qed

lemma packager_fails_run:
  "PackagerCall staged_linux_options
     \<in> set (new_events (start linux_options)
           (snd (buildMain packager_fails_host 0 (start linux_options))))"
  "packager packager_fails_host staged_linux_options = Inl (Error ''EEXIST'')"
  by (simp_all add: run_defs packager_fails_host_def)

theorem packager_rejection_passes_options_as_path_witness:
  "PackagerCall staged_linux_options
     \<in> set (new_events (start linux_options)
           (snd (buildMain packager_fails_host 0 (start linux_options))))
   \<and> packager packager_fails_host staged_linux_options = Inl (Error ''EEXIST'')
   \<and> (\<exists>opts. fst (buildMain packager_fails_host 0 (start linux_options))
          = Done (Some (Error ''EEXIST''), Some (AOpts opts)))"
  using packager_rejection_passes_options_as_path
    [OF prod.collapse [symmetric] packager_fails_run] packager_fails_run
  by blast

section \<open>Failures around the icon\<close>

lemma guards_ignore_iconBuild:
  "maybeNoIconOption (en\<lparr>iconBuild := g\<rparr>) = maybeNoIconOption en"
  "removeInvalidOptions (en\<lparr>iconBuild := g\<rparr>) = removeInvalidOptions en"
  by (simp_all add: fun_eq_iff maybeNoIconOption_def removeInvalidOptions_def Let_def
      split_beta)

lemma wrappers_ignore_iconBuild:
  "maybeNoAppCopyrightOption (en\<lparr>iconBuild := g\<rparr>) = maybeNoAppCopyrightOption en"
  "maybeNoAppVersionOption (en\<lparr>iconBuild := g\<rparr>) = maybeNoAppVersionOption en"
  "maybeNoBuildVersionOption (en\<lparr>iconBuild := g\<rparr>) = maybeNoBuildVersionOption en"
  "maybeNoVersionStringOption (en\<lparr>iconBuild := g\<rparr>) = maybeNoVersionStringOption en"
  "maybeNoWin32metadataOption (en\<lparr>iconBuild := g\<rparr>) = maybeNoWin32metadataOption en"
  by (simp_all add: fun_eq_iff wrapper_defs guards_ignore_iconBuild)

lemma sanitize_ignores_iconBuild:
  "sanitize (en\<lparr>iconBuild := g\<rparr>) = sanitize en"
  by (simp add: fun_eq_iff sanitize_def wrappers_ignore_iconBuild guards_ignore_iconBuild)

lemma copy_script_ignores_iconBuild:
  "copy_script (en\<lparr>iconBuild := g\<rparr>) = copy_script en"
  by (simp add: fun_eq_iff copy_script_def Let_def
      cong: jsval.case_cong option.case_cong if_cong)

lemma copy_scripts_ignores_iconBuild:
  "copy_scripts (en\<lparr>iconBuild := g\<rparr>) dest srcs w = copy_scripts en dest srcs w"
  by (induction srcs arbitrary: w) (simp_all add: copy_script_ignores_iconBuild)

lemma buildApp_ignores_iconBuild:
  "buildApp (en\<lparr>iconBuild := g\<rparr>) = buildApp en"
  by (simp add: fun_eq_iff buildApp_def maybeCopyScripts_def copy_scripts_ignores_iconBuild
      changeAppPackageJsonName_def Let_def
      cong: jsval.case_cong option.case_cong sum.case_cong outcome.case_cong prod.case_cong
        if_cong)

lemma stages_ignore_iconBuild:
  "stage_inferring (en\<lparr>iconBuild := g\<rparr>) = stage_inferring en"
  "stage_copying (en\<lparr>iconBuild := g\<rparr>) = stage_copying en"
  "stage_packaging (en\<lparr>iconBuild := g\<rparr>) = stage_packaging en"
  "stage_finalizing (en\<lparr>iconBuild := g\<rparr>) = stage_finalizing en"
  by (simp_all add: fun_eq_iff stage_inferring_def stage_copying_def stage_packaging_def
      stage_finalizing_def buildApp_ignores_iconBuild sanitize_ignores_iconBuild
      maybeCopyIcons_def Let_def
      cong: jsval.case_cong option.case_cong sum.case_cong outcome.case_cong prod.case_cong
        list.case_cong arg.case_cong if_cong)

lemma stage_icons_drops_error:
  "stage_icons (en\<lparr>iconBuild := (\<lambda>c. (None, snd (iconBuild en c)))\<rparr>) = stage_icons en"
  by (simp add: fun_eq_iff stage_icons_def split_beta Let_def
      cong: list.case_cong arg.case_cong if_cong)

lemma stage_icons_calls_back:
  assumes "is_object w0 opts"
  shows "\<exists>a w1. stage_icons en [AOpts opts] w0 = (Done (None, [AOpts a]), w1)
           \<and> obj_at w1 a = snd (iconBuild en (obj_at w0 opts))"
  using assms
  by (simp add: stage_icons_def alloc_def obj_at_def is_object_def split_beta Let_def)

lemma finalizing_copy_result:
  assumes "final_callback (stage_finalizing en [AOpts opts, APaths (p # ps)] w4) = (r, w')"
    and "trace w' = tr @ [Enter ''maybeCopyIcons'', CopyCall icon target, Playback]"
  shows "r = Done (ncp en icon target, Some (APath p))"
proof -
  from assms(2) have
    "rev (trace w') = Playback # CopyCall icon target # Enter ''maybeCopyIcons'' # rev tr"
    by simp
  with assms(1) show ?thesis
    by (auto simp add: stage_finalizing_def maybeCopyIcons_def getAppPath_def
        final_callback_def bad_args_def Let_def split: if_splits jsval.splits)
qed

text \<open>
  C7, as the code has it. An error reported by the icon build is dropped, in every run:
  the run is the same, in result and effects, as with an icon build that reports no error
  and hands back the same configuration; the icons stage itself, given a configuration
  object, always calls back without an error and passes on the configuration that the icon
  build handed back, whatever error came with it. A failure of the final icon copy is not
  dropped: in a run in which the packaging engine returned the path \<open>p\<close> first and whose
  last three events are the entry into \<^verbatim>\<open>maybeCopyIcons\<close>, the copy of the icon and the
  playback, the final callback gets the outcome of that copy as its error argument (the
  error \<open>e\<close> if the copy failed with \<open>e\<close>, none if it succeeded) together with the path \<open>p\<close>.
\<close>

theorem icon_failures:
  "buildMain (en\<lparr>iconBuild := (\<lambda>c. (None, snd (iconBuild en c)))\<rparr>) inpOptions w
     = buildMain en inpOptions w
   \<and> (\<forall>opts w0. is_object w0 opts \<longrightarrow>
         (\<exists>a w1. stage_icons en [AOpts opts] w0 = (Done (None, [AOpts a]), w1)
            \<and> obj_at w1 a = snd (iconBuild en (obj_at w0 opts))))
   \<and> (\<forall>r w' cfg p ps icon target.
         buildMain en inpOptions w = (r, w')
         \<and> PackagerCall cfg \<in> set (new_events w w')
         \<and> packager en cfg = Inr (p # ps)
         \<and> drop (length (new_events w w') - 3) (new_events w w')
              = [Enter ''maybeCopyIcons'', CopyCall icon target, Playback]
         \<longrightarrow> r = Done (ncp en icon target, Some (APath p)))"
proof (intro conjI allI impI)
  show "buildMain (en\<lparr>iconBuild := (\<lambda>c. (None, snd (iconBuild en c)))\<rparr>) inpOptions w
          = buildMain en inpOptions w"
    by (simp add: buildMain_def stages_def stages_ignore_iconBuild stage_icons_drops_error)
next
  fix opts w0
  assume "is_object w0 opts"
  then show "\<exists>a w1. stage_icons en [AOpts opts] w0 = (Done (None, [AOpts a]), w1)
           \<and> obj_at w1 a = snd (iconBuild en (obj_at w0 opts))"
    by (rule stage_icons_calls_back)
next
  fix r w' cfg p ps icon target
  assume a: "buildMain en inpOptions w = (r, w')
         \<and> PackagerCall cfg \<in> set (new_events w w')
         \<and> packager en cfg = Inr (p # ps)
         \<and> drop (length (new_events w w') - 3) (new_events w w')
              = [Enter ''maybeCopyIcons'', CopyCall icon target, Playback]"
  then have run: "buildMain en inpOptions w = (r, w')"
    and call: "PackagerCall cfg \<in> set (new_events w w')"
    and path: "packager en cfg = Inr (p # ps)"
    and last3: "drop (length (new_events w w') - 3) (new_events w w')
              = [Enter ''maybeCopyIcons'', CopyCall icon target, Playback]"
    by simp_all
  from run_reaches_packager [OF run call] path obtain opts w4 where
    fin: "final_callback (stage_finalizing en [AOpts opts, APaths (p # ps)] w4) = (r, w')"
    by auto
  let ?new = "new_events w w'"
  from last3 append_take_drop_id [of "length ?new - 3" ?new]
  have "?new = take (length ?new - 3) ?new
      @ [Enter ''maybeCopyIcons'', CopyCall icon target, Playback]"
    by simp
  with buildMain_extends_trace [OF run]
  have "trace w' = (trace w @ take (length ?new - 3) ?new)
      @ [Enter ''maybeCopyIcons'', CopyCall icon target, Playback]"
    by simp
  from finalizing_copy_result [OF fin this]
  show "r = Done (ncp en icon target, Some (APath p))" .
qed

lemma icon_copy_fails_run:
  "PackagerCall staged_linux_options
     \<in> set (new_events (start linux_options)
           (snd (buildMain icon_copy_fails_host 0 (start linux_options))))"
  "packager icon_copy_fails_host staged_linux_options = Inr [''/out/app'']"
  "drop (length (new_events (start linux_options)
            (snd (buildMain icon_copy_fails_host 0 (start linux_options)))) - 3)
        (new_events (start linux_options)
            (snd (buildMain icon_copy_fails_host 0 (start linux_options))))
     = [Enter ''maybeCopyIcons'', CopyCall ''app.png'' ''/out/app/resources/app/icon.png'',
        Playback]"
  "ncp icon_copy_fails_host ''app.png'' ''/out/app/resources/app/icon.png''
     = Some (Error ''EACCES'')"
  by (simp_all add: run_defs icon_copy_fails_host_def)

lemma icon_copy_runs:
  "fst (buildMain icon_copy_fails_host 0 (start linux_options))
     = Done (Some (Error ''EACCES''), Some (APath ''/out/app''))"
  "fst (buildMain linux_host 0 (start linux_options)) = Done (None, Some (APath ''/out/app''))"
  by (simp_all add: run_defs icon_copy_fails_host_def)

lemma icon_build_fails_host_facts:
  "is_object (start linux_options) 0"
  "obj_at (start linux_options) 0 = linux_options"
  "iconBuild icon_build_fails_host linux_options
     = (Some (Error ''icon conversion failed''), linux_options)"
  "icon_build_fails_host\<lparr>iconBuild := (\<lambda>c. (None, snd (iconBuild icon_build_fails_host c)))\<rparr>
     = linux_host"
  by (simp_all add: icon_build_fails_host_def linux_host_def is_object_def obj_at_def start_def)

text \<open>
  On \<open>icon_build_fails_host\<close> the icon build reports an error for every configuration; the
  icons stage calls back without it and the run ends with no error and the bundle path. On
  \<open>icon_copy_fails_host\<close> the copy of the icon fails and the run ends with that error.
\<close>

theorem icon_failures_witness:
  "is_object (start linux_options) 0
   \<and> fst (iconBuild icon_build_fails_host (obj_at (start linux_options) 0))
       = Some (Error ''icon conversion failed'')
   \<and> (\<exists>a w1. stage_icons icon_build_fails_host [AOpts 0] (start linux_options)
                = (Done (None, [AOpts a]), w1)
         \<and> obj_at w1 a = linux_options)
   \<and> fst (buildMain icon_build_fails_host 0 (start linux_options))
       = Done (None, Some (APath ''/out/app''))
   \<and> PackagerCall staged_linux_options
       \<in> set (new_events (start linux_options)
             (snd (buildMain icon_copy_fails_host 0 (start linux_options))))
   \<and> packager icon_copy_fails_host staged_linux_options = Inr [''/out/app'']
   \<and> ncp icon_copy_fails_host ''app.png'' ''/out/app/resources/app/icon.png''
       = Some (Error ''EACCES'')
   \<and> fst (buildMain icon_copy_fails_host 0 (start linux_options))
       = Done (Some (Error ''EACCES''), Some (APath ''/out/app''))"
proof -
  note build = icon_failures [of icon_build_fails_host 0 "start linux_options"]
  note copy = icon_failures [of icon_copy_fails_host 0 "start linux_options"]
  from build have "buildMain icon_build_fails_host 0 (start linux_options)
      = buildMain linux_host 0 (start linux_options)"
    by (simp only: icon_build_fails_host_facts(4))
  with icon_copy_runs(2)
  have a: "fst (buildMain icon_build_fails_host 0 (start linux_options))
       = Done (None, Some (APath ''/out/app''))"
    by simp
  from build icon_build_fails_host_facts(1)
  have "\<exists>a w1. stage_icons icon_build_fails_host [AOpts 0] (start linux_options)
                = (Done (None, [AOpts a]), w1)
         \<and> obj_at w1 a
              = snd (iconBuild icon_build_fails_host (obj_at (start linux_options) 0))"
    by blast
  then have b: "\<exists>a w1. stage_icons icon_build_fails_host [AOpts 0] (start linux_options)
                = (Done (None, [AOpts a]), w1)
         \<and> obj_at w1 a = linux_options"
    by (simp add: icon_build_fails_host_facts(2,3))
  from copy [THEN conjunct2, THEN conjunct2, rule_format,
      OF conjI [OF prod.collapse [symmetric] conjI [OF icon_copy_fails_run(1)
        conjI [OF icon_copy_fails_run(2) icon_copy_fails_run(3)]]]]
  have "fst (buildMain icon_copy_fails_host 0 (start linux_options))
      = Done (ncp icon_copy_fails_host ''app.png'' ''/out/app/resources/app/icon.png'',
              Some (APath ''/out/app''))" .
  then have c: "fst (buildMain icon_copy_fails_host 0 (start linux_options))
       = Done (Some (Error ''EACCES''), Some (APath ''/out/app''))"
    by (simp add: icon_copy_fails_run(4))
  from a b c icon_copy_fails_run icon_build_fails_host_facts show ?thesis by simp
qed

text \<open>
  The claim C7 as it is written has the pipeline report success when only the final icon
  copy fails. On \<open>icon_copy_fails_host\<close>, which differs from \<open>linux_host\<close> only in that the
  copy of \<^verbatim>\<open>app.png\<close> fails, the final callback gets the error of the copy (with the bundle
  path); on \<open>linux_host\<close> it gets no error.
\<close>

theorem icon_copy_failure_counterexample:
  "ncp icon_copy_fails_host ''app.png'' ''/out/app/resources/app/icon.png''
     = Some (Error ''EACCES'')
   \<and> fst (buildMain icon_copy_fails_host 0 (start linux_options))
       = Done (Some (Error ''EACCES''), Some (APath ''/out/app''))
   \<and> fst (buildMain linux_host 0 (start linux_options))
       = Done (None, Some (APath ''/out/app''))"
  using icon_copy_runs by (simp add: icon_copy_fails_host_def)

end
